theory Spec2Isabelle
  imports
    Complex_Main
    "HOL-Library.List_Lexorder"
    "HOL-Library.Char_ord"
    "HOL-Library.Product_Lexorder"
    "HOL-Library.Multiset"
begin

section \<open>Values held by table cells\<close>

text \<open>
  The pipeline of \<^verbatim>\<open>helper_functions.py\<close> works on pandas tables. A table is modelled as
  the list of its rows in table order; a row is a record with one field per column the
  code names. A \<^verbatim>\<open>float64\<close> cell is either a finite number or one of the three special
  values. Finite arithmetic is carried out in the reals: rounding and overflow of finite
  results are not modelled, the special values follow IEEE 754.
\<close>

datatype float64 = Fin real | PInf | NInf | NaN

fun isnan :: "float64 \<Rightarrow> bool" where
  "isnan NaN = True"
| "isnan _ = False"

fun isinf :: "float64 \<Rightarrow> bool" where
  "isinf PInf = True"
| "isinf NInf = True"
| "isinf _ = False"

fun isfinite :: "float64 \<Rightarrow> bool" where
  "isfinite (Fin _) = True"
| "isfinite _ = False"

text \<open>\<open>x < 0\<close> on floats: false for NaN.\<close>

fun fnegative :: "float64 \<Rightarrow> bool" where
  "fnegative (Fin a) = (a < 0)"
| "fnegative NInf = True"
| "fnegative _ = False"

fun fneg :: "float64 \<Rightarrow> float64" where
  "fneg (Fin a) = Fin (- a)"
| "fneg PInf = NInf"
| "fneg NInf = PInf"
| "fneg NaN = NaN"

fun fadd :: "float64 \<Rightarrow> float64 \<Rightarrow> float64" where
  "fadd (Fin a) (Fin b) = Fin (a + b)"
| "fadd NaN _ = NaN"
| "fadd _ NaN = NaN"
| "fadd PInf NInf = NaN"
| "fadd NInf PInf = NaN"
| "fadd PInf _ = PInf"
| "fadd _ PInf = PInf"
| "fadd NInf _ = NInf"
| "fadd _ NInf = NInf"

definition fsub :: "float64 \<Rightarrow> float64 \<Rightarrow> float64" where
  "fsub a b = fadd a (fneg b)"

definition inf_of_sign :: "real \<Rightarrow> float64" where
  "inf_of_sign s = (if s = 0 then NaN else if 0 < s then PInf else NInf)"

fun fmul :: "float64 \<Rightarrow> float64 \<Rightarrow> float64" where
  "fmul (Fin a) (Fin b) = Fin (a * b)"
| "fmul NaN _ = NaN"
| "fmul _ NaN = NaN"
| "fmul (Fin a) PInf = inf_of_sign a"
| "fmul (Fin a) NInf = inf_of_sign (- a)"
| "fmul PInf (Fin b) = inf_of_sign b"
| "fmul NInf (Fin b) = inf_of_sign (- b)"
| "fmul PInf PInf = PInf"
| "fmul NInf NInf = PInf"
| "fmul PInf NInf = NInf"
| "fmul NInf PInf = NInf"

text \<open>
  True division of two \<^verbatim>\<open>int64\<close> columns (\<^verbatim>\<open>agg_df["Numerator"] / agg_df["Denominator"]\<close>):
  the result column is \<^verbatim>\<open>float64\<close>, and a zero divisor gives an infinity or NaN, no
  exception.
\<close>

definition int_truediv :: "int \<Rightarrow> int \<Rightarrow> float64" where
  "int_truediv n d = (if d = 0 then inf_of_sign (of_int n) else Fin (of_int n / of_int d))"

text \<open>\<^verbatim>\<open>Series.clip(lower=lo)\<close>: NaN stays NaN.\<close>

fun clip_lower :: "real \<Rightarrow> float64 \<Rightarrow> float64" where
  "clip_lower lo (Fin a) = Fin (max lo a)"
| "clip_lower lo PInf = PInf"
| "clip_lower lo NInf = Fin lo"
| "clip_lower lo NaN = NaN"

text \<open>A cell of a column the code creates by name while it runs.\<close>

datatype cell = CNone | CInt int | CStr string

section \<open>Rows\<close>

text \<open>
  \<open>key_row\<close> holds the columns every table of the pipeline has: the category key and the
  three counters, for the grouping and summed columns the driver script passes
  (\<^verbatim>\<open>['Measure', 'Definitions', 'Multiplier']\<close> and
  \<^verbatim>\<open>['Numerator', 'Denominator', 'Expected Events']\<close>). The counters are integers
  (the driver rounds \<^verbatim>\<open>Expected Events\<close>); sums are not bounded to 64 bits.

  \<open>src_row\<close> is a row of the table given to \<^verbatim>\<open>AddDateColumns\<close>, with the date column
  the driver names (\<^verbatim>\<open>"Discharge Month"\<close>); \<open>dec_row\<close> a row of its result.
  \<open>agg_row\<close> is a row of \<^verbatim>\<open>agg_df\<close> in \<^verbatim>\<open>aggregate_dataframe\<close>; \<open>other\<close> holds the cells
  of any further column, by column name: \<^verbatim>\<open>sort_by_date\<close> creates such columns.
  \<open>ranked_row\<close> adds \<^verbatim>\<open>RowNumber\<close>, \<open>spc_row\<close> the eight columns of \<^verbatim>\<open>rolling_spc_agg\<close>.
\<close>

record key_row =
  Measure :: string
  Definitions :: string
  Multiplier :: int
  Numerator :: int
  Denominator :: int
  Expected_Events :: int

record 'd src_row = key_row +
  Discharge_Month :: 'd

record 'd dec_row = "'d src_row" +
  Year :: string
  Quarter :: string
  Month :: string

record agg_row = key_row +
  Date :: string
  frequency :: string
  Rate :: float64
  other :: "(string \<times> cell) list"

record ranked_row = agg_row +
  RowNumber :: nat

record spc_row = ranked_row +
  Rolling_CL :: float64
  Rolling_Std :: float64
  Rolling_UCL_1STD :: float64
  Rolling_LCL_1STD :: float64
  Rolling_UCL_2STD :: float64
  Rolling_LCL_2STD :: float64
  Rolling_UCL_3STD :: float64
  Rolling_LCL_3STD :: float64

text \<open>
  The rows of the category of row \<open>j\<close>, in table order, and the position of row \<open>j\<close>
  among them (counted from 0).
\<close>

definition group_of :: "'a key_row_scheme list \<Rightarrow> nat \<Rightarrow> 'a key_row_scheme list" where
  "group_of df j = filter (\<lambda>r. Measure r = Measure (df ! j)) df"

definition pos_in_group :: "'a key_row_scheme list \<Rightarrow> nat \<Rightarrow> nat" where
  "pos_in_group df j = length (filter (\<lambda>r. Measure r = Measure (df ! j)) (take j df))"

section \<open>Strings and integers\<close>

datatype error = ValueError | TypeError | OverflowError

definition is_digit :: "char \<Rightarrow> bool" where
  "is_digit c = (c \<in> set ''0123456789'')"

definition digit_val :: "char \<Rightarrow> nat" where
  "digit_val c = of_char c - 48"

definition digit_char :: "nat \<Rightarrow> char" where
  "digit_char n = ''0123456789'' ! n"

text \<open>The value of a string of decimal digits.\<close>

definition dec_val :: "string \<Rightarrow> nat" where
  "dec_val s = foldl (\<lambda>acc c. 10 * acc + digit_val c) 0 s"

fun str_of_nat :: "nat \<Rightarrow> string" where
  "str_of_nat n = (if n < 10 then [digit_char n] else str_of_nat (n div 10) @ [digit_char (n mod 10)])"

declare str_of_nat.simps [simp del]

definition str_of_int :: "int \<Rightarrow> string" where
  "str_of_int i = (if i < 0 then CHR ''-'' # str_of_nat (nat (- i)) else str_of_nat (nat i))"

definition is_space :: "char \<Rightarrow> bool" where
  "is_space c = (of_char c \<in> {9, 10, 11, 12, 13, 28, 29, 30, 31, 32 :: nat})"

definition strip :: "string \<Rightarrow> string" where
  "strip s = rev (dropWhile is_space (rev (dropWhile is_space s)))"

fun split_on :: "char \<Rightarrow> string \<Rightarrow> string list" where
  "split_on sep [] = [[]]"
| "split_on sep (c # cs) =
     (if c = sep then [] # split_on sep cs
      else (c # hd (split_on sep cs)) # tl (split_on sep cs))"

definition parse_digits :: "string \<Rightarrow> nat option" where
  "parse_digits s =
     (let groups = split_on (CHR ''_'') s
      in if list_all (\<lambda>g. g \<noteq> [] \<and> list_all is_digit g) groups
         then Some (dec_val (concat groups)) else None)"

definition py_int :: "string \<Rightarrow> int option" where
  "py_int s =
     (case strip s of
        [] \<Rightarrow> None
      | c # cs \<Rightarrow>
          if c = CHR ''-'' then map_option (\<lambda>n. - int n) (parse_digits cs)
          else if c = CHR ''+'' then map_option int (parse_digits cs)
          else map_option int (parse_digits (c # cs)))"

text \<open>
  \<^verbatim>\<open>astype(int)\<close> on a cell: a string goes through Python's \<^verbatim>\<open>int()\<close> and must fit
  64 bits; \<^verbatim>\<open>int(None)\<close> is a TypeError.
\<close>

definition int64_of_str :: "string \<Rightarrow> error + int" where
  "int64_of_str s =
     (case py_int s of
        None \<Rightarrow> Inl ValueError
      | Some i \<Rightarrow> if - (2 ^ 63) \<le> i \<and> i < 2 ^ 63 then Inr i else Inl OverflowError)"

fun astype_int_cell :: "cell \<Rightarrow> error + int" where
  "astype_int_cell CNone = Inl TypeError"
| "astype_int_cell (CInt i) = Inr i"
| "astype_int_cell (CStr s) = int64_of_str s"

fun astype_int :: "cell list \<Rightarrow> error + int list" where
  "astype_int [] = Inr []"
| "astype_int (c # cs) =
     (case astype_int_cell c of
        Inl e \<Rightarrow> Inl e
      | Inr i \<Rightarrow> (case astype_int cs of Inl e \<Rightarrow> Inl e | Inr is \<Rightarrow> Inr (i # is)))"

definition zfill :: "nat \<Rightarrow> string \<Rightarrow> string" where
  "zfill width s =
     (if width \<le> length s then s
      else (case s of
              c # cs \<Rightarrow>
                if c = CHR ''+'' \<or> c = CHR ''-''
                then c # replicate (width - length s) (CHR ''0'') @ cs
                else replicate (width - length s) (CHR ''0'') @ s
            | [] \<Rightarrow> replicate width (CHR ''0'')))"

section \<open>Ordering of cells\<close>

text \<open>
  Integers are ordered numerically, strings by code point. The code only sorts columns
  that hold one type; a comparison across types (which raises in Python) is given the
  fixed order missing, integer, string.
\<close>

fun cell_key :: "cell \<Rightarrow> nat \<times> int \<times> string" where
  "cell_key CNone = (0, 0, [])"
| "cell_key (CInt i) = (1, i, [])"
| "cell_key (CStr s) = (2, 0, s)"

instantiation cell :: linorder
begin

definition less_eq_cell :: "cell \<Rightarrow> cell \<Rightarrow> bool" where
  "less_eq_cell a b = (cell_key a \<le> cell_key b)"

definition less_cell :: "cell \<Rightarrow> cell \<Rightarrow> bool" where
  "less_cell a b = (cell_key a < cell_key b)"

instance
proof
  fix x y z :: cell
  show "(x < y) = (x \<le> y \<and> \<not> y \<le> x)"
    unfolding less_eq_cell_def less_cell_def by (rule less_le_not_le)
  show "x \<le> x" unfolding less_eq_cell_def by simp
  show "x \<le> y \<Longrightarrow> y \<le> z \<Longrightarrow> x \<le> z"
    unfolding less_eq_cell_def by (rule order_trans)
  show "x \<le> y \<Longrightarrow> y \<le> x \<Longrightarrow> x = y"
    unfolding less_eq_cell_def by (cases x; cases y) auto
  show "x \<le> y \<or> y \<le> x"
    unfolding less_eq_cell_def by (rule linear)
qed

end

section \<open>Table operations on the further columns\<close>

text \<open>\<^verbatim>\<open>df[c] = values\<close>: replaces column \<open>c\<close>, or appends it.\<close>

fun put_cell :: "string \<Rightarrow> cell \<Rightarrow> (string \<times> cell) list \<Rightarrow> (string \<times> cell) list" where
  "put_cell c v [] = [(c, v)]"
| "put_cell c v (kv # kvs) = (if fst kv = c then (c, v) # kvs else kv # put_cell c v kvs)"

definition setitem :: "string \<Rightarrow> cell list \<Rightarrow> 'a agg_row_scheme list \<Rightarrow> 'a agg_row_scheme list" where
  "setitem c values df = map2 (\<lambda>r v. r\<lparr>other := put_cell c v (other r)\<rparr>) df values"

text \<open>\<^verbatim>\<open>df[c]\<close> for a column among the further ones.\<close>

definition getitem :: "string \<Rightarrow> 'a agg_row_scheme list \<Rightarrow> cell list" where
  "getitem c df = map (\<lambda>r. case map_of (other r) c of Some v \<Rightarrow> v | None \<Rightarrow> CNone) df"

definition drop_columns :: "string list \<Rightarrow> 'a agg_row_scheme list \<Rightarrow> 'a agg_row_scheme list" where
  "drop_columns cs df = map (\<lambda>r. r\<lparr>other := filter (\<lambda>kv. fst kv \<notin> set cs) (other r)\<rparr>) df"

text \<open>
  \<^verbatim>\<open>df.sort_values(by=cols)\<close> for the keys the code sorts by: \<^verbatim>\<open>Measure\<close> and further
  columns. With several keys the pandas sort is stable.
\<close>

definition sort_cell :: "'a agg_row_scheme \<Rightarrow> string \<Rightarrow> cell" where
  "sort_cell r c =
     (if c = ''Measure'' then CStr (Measure r)
      else (case map_of (other r) c of Some v \<Rightarrow> v | None \<Rightarrow> CNone))"

definition sort_values :: "string list \<Rightarrow> 'a agg_row_scheme list \<Rightarrow> 'a agg_row_scheme list" where
  "sort_values cols df = sort_key (\<lambda>r. map (sort_cell r) cols) df"

text \<open>
  \<^verbatim>\<open>Series.str.split(sep, expand=True)\<close>: one column per part, as many columns as the
  longest row has parts (none for an empty column), shorter rows filled with None.
\<close>

definition str_split_expand :: "char \<Rightarrow> string list \<Rightarrow> cell list list" where
  "str_split_expand sep col =
     (let parts = map (split_on sep) col;
          ncols = (if parts = [] then 0 else Max (set (map length parts)))
      in map (\<lambda>c. map (\<lambda>p. if c < length p then CStr (p ! c) else CNone) parts) [0..<ncols])"

section \<open>\<^verbatim>\<open>sort_by_date\<close>\<close>

text \<open>
  The function assigns its helper columns to the table it was given before it sorts, so
  it changes the caller's table. The result is a pair: the caller's table as the call
  leaves it, and the value returned or the exception raised.
  \<^verbatim>\<open>df[["Year", c]] = frame\<close> raises ValueError unless the frame has two columns.
\<close>

definition sort_by_sub ::
  "string \<Rightarrow> 'a agg_row_scheme list \<Rightarrow> 'a agg_row_scheme list \<times> (error + 'a agg_row_scheme list)" where
  "sort_by_sub sub df_subset =
     (let parts = str_split_expand (CHR ''-'') (map Date df_subset)
      in if length parts \<noteq> 2 then (df_subset, Inl ValueError)
         else
           (let df1 = setitem sub (parts ! 1) (setitem ''Year'' (parts ! 0) df_subset)
            in (case astype_int (getitem ''Year'' df1) of
                  Inl e \<Rightarrow> (df1, Inl e)
                | Inr ys \<Rightarrow>
                    (let df2 = setitem ''Year'' (map CInt ys) df1
                     in (case astype_int (getitem sub df2) of
                           Inl e \<Rightarrow> (df2, Inl e)
                         | Inr ns \<Rightarrow>
                             (let df3 = setitem sub (map CInt ns) df2
                              in (df3, Inr (drop_columns [''Year'', sub]
                                    (sort_values [''Measure'', ''Year'', sub] df3)))))))))"

definition sort_by_date ::
  "'a agg_row_scheme list \<Rightarrow> string \<Rightarrow> 'a agg_row_scheme list \<times> (error + 'a agg_row_scheme list)" where
  "sort_by_date df_subset freq =
     (if freq = ''Year'' then
        (case astype_int (map (CStr \<circ> Date) df_subset) of
           Inl e \<Rightarrow> (df_subset, Inl e)
         | Inr ys \<Rightarrow>
             (let df1 = setitem ''Year'' (map CInt ys) df_subset
              in (df1, Inr (drop_columns [''Year''] (sort_values [''Measure'', ''Year''] df1)))))
      else if freq = ''Quarter'' then sort_by_sub ''QuarterNum'' df_subset
      else sort_by_sub ''MonthNum'' df_subset)"

section \<open>\<^verbatim>\<open>AddDateColumns\<close>\<close>

text \<open>
  \<^verbatim>\<open>pd.to_datetime(..., errors='coerce')\<close> is a parameter \<open>to_datetime\<close>: it gives the
  timestamp a raw value parses to, or \<open>None\<close> (NaT) for a value that does not parse.
\<close>

record timestamp =
  year :: int
  month :: nat
  day :: nat

definition quarter :: "timestamp \<Rightarrow> nat" where
  "quarter d = (month d - 1) div 3 + 1"

text \<open>
  A column read through the \<^verbatim>\<open>.dt\<close> accessor is an integer column when no value is NaT;
  with a NaT in it the whole column is \<^verbatim>\<open>float64\<close>, NaN where the value is NaT.
\<close>

datatype num_series = Int_dtype "int list" | Float_dtype "int option list"

definition dt_field :: "(timestamp \<Rightarrow> int) \<Rightarrow> timestamp option list \<Rightarrow> num_series" where
  "dt_field f col =
     (if list_all (\<lambda>d. d \<noteq> None) col then Int_dtype (map (\<lambda>d. f (the d)) col)
      else Float_dtype (map (map_option f) col))"

text \<open>\<^verbatim>\<open>astype(str)\<close>: a whole float prints with \<^verbatim>\<open>.0\<close>, NaN as \<^verbatim>\<open>nan\<close>.\<close>

fun astype_str :: "num_series \<Rightarrow> string list" where
  "astype_str (Int_dtype xs) = map str_of_int xs"
| "astype_str (Float_dtype xs) =
     map (\<lambda>v. case v of None \<Rightarrow> ''nan'' | Some i \<Rightarrow> str_of_int i @ ''.0'') xs"

definition AddDateColumns ::
  "('d \<Rightarrow> timestamp option) \<Rightarrow> 'd src_row list \<Rightarrow> timestamp option dec_row list" where
  "AddDateColumns to_datetime df =
     (let dates = map (\<lambda>r. to_datetime (Discharge_Month r)) df;
          month_s = dt_field (\<lambda>d. int (month d)) dates;
          year_s = dt_field year dates;
          quarter_s = dt_field (\<lambda>d. int (quarter d)) dates;
          Year_col = astype_str year_s;
          Quarter_col = map2 (@) (map (\<lambda>y. y @ ''-'') (astype_str year_s)) (astype_str quarter_s);
          Month_col = map2 (@) (map (\<lambda>y. y @ ''-'') (astype_str year_s))
                        (map (zfill 2) (astype_str month_s))
      in map (\<lambda>i. \<lparr>Measure = Measure (df ! i), Definitions = Definitions (df ! i),
                    Multiplier = Multiplier (df ! i), Numerator = Numerator (df ! i),
                    Denominator = Denominator (df ! i),
                    Expected_Events = Expected_Events (df ! i),
                    Discharge_Month = dates ! i,
                    Year = Year_col ! i, Quarter = Quarter_col ! i, Month = Month_col ! i\<rparr>)
           [0..<length df])"

section \<open>\<^verbatim>\<open>aggregate_dataframe\<close>\<close>

text \<open>
  \<open>date_col\<close> is one of the three period columns. The grouping key is the category key
  and the period label; \<^verbatim>\<open>groupby(...).sum().reset_index()\<close> gives one row per key
  present, the keys in ascending order.
\<close>

datatype date_col = Year_col | Quarter_col | Month_col

fun period_label :: "date_col \<Rightarrow> 'd dec_row \<Rightarrow> string" where
  "period_label Year_col r = Year r"
| "period_label Quarter_col r = Quarter r"
| "period_label Month_col r = Month r"

definition group_key :: "date_col \<Rightarrow> 'd dec_row \<Rightarrow> string \<times> string \<times> int \<times> string" where
  "group_key dc r = (Measure r, Definitions r, Multiplier r, period_label dc r)"

definition groupby_sum :: "date_col \<Rightarrow> string \<Rightarrow> 'd dec_row list \<Rightarrow> agg_row list" where
  "groupby_sum dc freq df =
     map (\<lambda>k. case k of (m, d, mu, label) \<Rightarrow>
            (let g = filter (\<lambda>r. group_key dc r = k) df;
                 num = sum_list (map Numerator g);
                 den = sum_list (map Denominator g);
                 ee = sum_list (map Expected_Events g)
             in \<lparr>Measure = m, Definitions = d, Multiplier = mu, Numerator = num,
                  Denominator = den, Expected_Events = ee, Date = label, frequency = freq,
                  Rate = fmul (int_truediv num den) (Fin (of_int mu)), other = []\<rparr>))
       (sort (remdups (map (group_key dc) df)))"

text \<open>
  \<^verbatim>\<open>groupby("Measure").cumcount(ascending=False)\<close> numbers the rows of each group from
  the size of the group minus one down to zero, in table order.
\<close>

definition cumcount_desc :: "'a key_row_scheme list \<Rightarrow> nat list" where
  "cumcount_desc df =
     map (\<lambda>j. length (group_of df j) - 1 - pos_in_group df j) [0..<length df]"

definition aggregate_dataframe ::
  "'d dec_row list \<Rightarrow> date_col \<Rightarrow> string \<Rightarrow> error + ranked_row list" where
  "aggregate_dataframe df dc freq =
     (let agg_df = groupby_sum dc freq df
      in case snd (sort_by_date agg_df freq) of
           Inl e \<Rightarrow> Inl e
         | Inr sorted_df \<Rightarrow>
             Inr (map2 (\<lambda>r n. agg_row.extend r (ranked_row.fields (n + 1)))
                    sorted_df (cumcount_desc sorted_df)))"

section \<open>Rolling windows\<close>

text \<open>
  \<^verbatim>\<open>Series.rolling(window=w, min_periods=m, closed='left')\<close> with an integer window.
  For row \<open>i\<close> of \<open>num_values\<close> rows pandas takes \<open>end = i + 1\<close>, \<open>start = end - w\<close>,
  moves both one row back for \<^verbatim>\<open>closed='left'\<close> and clips them to \<open>[0, num_values]\<close>; the
  window is the slice \<open>[start, end)\<close>. The window size is a natural number here: pandas
  rejects a negative one before it computes anything.
\<close>

definition get_window_bounds :: "nat \<Rightarrow> nat \<Rightarrow> nat \<Rightarrow> nat \<times> nat" where
  "get_window_bounds num_values window_size i =
     (let end0 = int i + 1;
          start0 = end0 - int window_size;
          start1 = start0 - 1;
          end1 = end0 - 1
      in (nat (min (max start1 0) (int num_values)),
          nat (min (max end1 0) (int num_values))))"

text \<open>Before a rolling aggregation pandas replaces infinities by NaN.\<close>

definition prep_values :: "float64 list \<Rightarrow> float64 list" where
  "prep_values xs = map (\<lambda>x. if isinf x then NaN else x) xs"

text \<open>The observations of a window are its cells that are not NaN.\<close>

fun valid_obs :: "float64 list \<Rightarrow> real list" where
  "valid_obs [] = []"
| "valid_obs (Fin a # xs) = a # valid_obs xs"
| "valid_obs (_ # xs) = valid_obs xs"

definition window_obs :: "float64 list \<Rightarrow> nat \<Rightarrow> nat \<Rightarrow> real list" where
  "window_obs xs window_size i =
     (case get_window_bounds (length xs) window_size i of
        (s, e) \<Rightarrow> valid_obs (take (e - s) (drop s (prep_values xs))))"

definition mean :: "real list \<Rightarrow> real" where
  "mean obs = sum_list obs / real (length obs)"

definition roll_mean :: "nat \<Rightarrow> real list \<Rightarrow> float64" where
  "roll_mean minp obs =
     (if minp \<le> length obs \<and> 0 < length obs then Fin (mean obs) else NaN)"

text \<open>Variance with \<open>ddof\<close> delta degrees of freedom; \<^verbatim>\<open>std()\<close> uses \<open>ddof = 1\<close>.\<close>

definition ssqdm :: "real list \<Rightarrow> real" where
  "ssqdm obs = sum_list (map (\<lambda>x. (x - mean obs)\<^sup>2) obs)"

definition roll_var :: "nat \<Rightarrow> nat \<Rightarrow> real list \<Rightarrow> float64" where
  "roll_var minp ddof obs =
     (if minp \<le> length obs \<and> ddof < length obs
      then Fin (ssqdm obs / (real (length obs) - real ddof)) else NaN)"

fun zsqrt :: "float64 \<Rightarrow> float64" where
  "zsqrt (Fin v) = Fin (if v < 0 then 0 else sqrt v)"
| "zsqrt x = x"

definition rolling_mean :: "nat \<Rightarrow> nat \<Rightarrow> float64 list \<Rightarrow> float64 list" where
  "rolling_mean window_size min_periods xs =
     map (\<lambda>i. roll_mean min_periods (window_obs xs window_size i)) [0..<length xs]"

definition rolling_std :: "nat \<Rightarrow> nat \<Rightarrow> float64 list \<Rightarrow> float64 list" where
  "rolling_std window_size min_periods xs =
     map (\<lambda>i. zsqrt (roll_var min_periods 1 (window_obs xs window_size i))) [0..<length xs]"

section \<open>\<^verbatim>\<open>rolling_spc_agg\<close>\<close>

text \<open>
  \<^verbatim>\<open>calc_rolling\<close> adds the eight columns to one group \<open>grp\<close>, each computed from the columns
  before it, as the code assigns them.
\<close>

definition calc_rolling :: "nat \<Rightarrow> ranked_row list \<Rightarrow> spc_row list" where
  "calc_rolling window_size grp =
     (let cl = rolling_mean window_size window_size (map Rate grp);
          sd = rolling_std window_size window_size (map Rate grp);
          ucl1 = map2 (\<lambda>c s. fadd c (fmul (Fin 1) s)) cl sd;
          lcl1 = map (clip_lower 0) (map2 (\<lambda>c s. fsub c (fmul (Fin 1) s)) cl sd);
          ucl2 = map2 (\<lambda>c s. fadd c (fmul (Fin 2) s)) cl sd;
          lcl2 = map (clip_lower 0) (map2 (\<lambda>c s. fsub c (fmul (Fin 2) s)) cl sd);
          ucl3 = map2 (\<lambda>c s. fadd c (fmul (Fin 3) s)) cl sd;
          lcl3 = map (clip_lower 0) (map2 (\<lambda>c s. fsub c (fmul (Fin 3) s)) cl sd)
      in map (\<lambda>i. ranked_row.extend (grp ! i)
                (spc_row.fields (cl ! i) (sd ! i) (ucl1 ! i) (lcl1 ! i)
                   (ucl2 ! i) (lcl2 ! i) (ucl3 ! i) (lcl3 ! i)))
           [0..<length grp])"

text \<open>
  \<^verbatim>\<open>df.groupby('Measure', group_keys=False).apply(f)\<close>: the rows are split by their
  \<^verbatim>\<open>Measure\<close>, the groups taken in the order of the sorted keys, \<open>f\<close> applied to each group
  (its rows in table order), and, \<open>f\<close> keeping the index of its group, the pieces are
  concatenated and put back into the order of \<open>df\<close>. The index of a row is its position
  in \<open>df\<close>.
\<close>

definition groupby_apply ::
  "('a key_row_scheme list \<Rightarrow> 'b list) \<Rightarrow> 'a key_row_scheme list \<Rightarrow> 'b list" where
  "groupby_apply f df =
     (let indexed = zip [0..<length df] df;
          keys = sort (remdups (map Measure df));
          pieces = map (\<lambda>k. let g = filter (\<lambda>ir. Measure (snd ir) = k) indexed
                             in zip (map fst g) (f (map snd g))) keys
      in map snd (sort_key fst (concat pieces)))"

text \<open>\<^verbatim>\<open>df_out.loc[mask_year, spc_cols] = np.nan\<close> on one row.\<close>

definition null_spc_cols :: "spc_row \<Rightarrow> spc_row" where
  "null_spc_cols r = r\<lparr>Rolling_CL := NaN, Rolling_Std := NaN,
     Rolling_UCL_1STD := NaN, Rolling_LCL_1STD := NaN,
     Rolling_UCL_2STD := NaN, Rolling_LCL_2STD := NaN,
     Rolling_UCL_3STD := NaN, Rolling_LCL_3STD := NaN\<rparr>"

definition rolling_spc_agg :: "ranked_row list \<Rightarrow> nat \<Rightarrow> int \<Rightarrow> spc_row list" where
  "rolling_spc_agg df window_size sigma =
     (let df_out = groupby_apply (calc_rolling window_size) df;
          mask_year = map (\<lambda>r. frequency r = ''Year'') df_out
      in map2 (\<lambda>m r. if m then null_spc_cols r else r) mask_year df_out)"

text \<open>The band columns by their number of standard deviations.\<close>

definition Rolling_UCL :: "nat \<Rightarrow> spc_row \<Rightarrow> float64" where
  "Rolling_UCL k r =
     (if k = 1 then Rolling_UCL_1STD r else if k = 2 then Rolling_UCL_2STD r
      else Rolling_UCL_3STD r)"

definition Rolling_LCL :: "nat \<Rightarrow> spc_row \<Rightarrow> float64" where
  "Rolling_LCL k r =
     (if k = 1 then Rolling_LCL_1STD r else if k = 2 then Rolling_LCL_2STD r
      else Rolling_LCL_3STD r)"

section \<open>The driver script\<close>

text \<open>
  \<^verbatim>\<open>Series.str.replace(r"-(\d+)", r"-Q\1", regex=True)\<close>: every hyphen followed by
  digits gets a \<^verbatim>\<open>Q\<close> between it and the digits; the scan goes on behind the digits.
\<close>

function quarter_name :: "string \<Rightarrow> string" where
  "quarter_name [] = []"
| "quarter_name (c # cs) =
     (if c = CHR ''-'' \<and> takeWhile is_digit cs \<noteq> []
      then CHR ''-'' # CHR ''Q'' # takeWhile is_digit cs @ quarter_name (dropWhile is_digit cs)
      else c # quarter_name cs)"
  by pat_completeness auto
termination
  by (relation "measure length") (auto simp: length_dropWhile_le less_Suc_eq_le)

definition adjust_quarter_name :: "spc_row list \<Rightarrow> spc_row list" where
  "adjust_quarter_name df =
     map (\<lambda>r. if frequency r = ''Quarter'' then r\<lparr>Date := quarter_name (Date r)\<rparr> else r) df"

text \<open>
  The three tables with their SPC columns, in the order month, quarter, year, before
  the quarter labels are adjusted; then the final table.
\<close>

definition spc_tables ::
  "'d dec_row list \<Rightarrow> error + (spc_row list \<times> spc_row list \<times> spc_row list)" where
  "spc_tables df_w_date_columns =
     (case aggregate_dataframe df_w_date_columns Year_col ''Year'' of
        Inl e \<Rightarrow> Inl e
      | Inr agg_year \<Rightarrow>
          (case aggregate_dataframe df_w_date_columns Quarter_col ''Quarter'' of
             Inl e \<Rightarrow> Inl e
           | Inr agg_quarter \<Rightarrow>
               (case aggregate_dataframe df_w_date_columns Month_col ''Month'' of
                  Inl e \<Rightarrow> Inl e
                | Inr agg_month \<Rightarrow>
                    Inr (rolling_spc_agg agg_month 24 3,
                         rolling_spc_agg agg_quarter 8 3,
                         rolling_spc_agg agg_year 2 3))))"

definition Finalset :: "'d dec_row list \<Rightarrow> error + spc_row list" where
  "Finalset df_w_date_columns =
     (case spc_tables df_w_date_columns of
        Inl e \<Rightarrow> Inl e
      | Inr (agg_month_spc, agg_quarter_spc, agg_year_spc) \<Rightarrow>
          Inr (agg_month_spc @ adjust_quarter_name agg_quarter_spc @ agg_year_spc))"

section \<open>Notions used in the statements\<close>

text \<open>
  The year and the sub-period \<^verbatim>\<open>sort_by_date\<close> reads from one label, when it can read
  them: the whole label for \<^verbatim>\<open>"Year"\<close>, the two parts around the hyphen otherwise.
\<close>

definition label_period :: "string \<Rightarrow> string \<Rightarrow> int list option" where
  "label_period freq s =
     (if freq = ''Year'' then
        (case int64_of_str s of Inr y \<Rightarrow> Some [y] | Inl e \<Rightarrow> None)
      else
        (case split_on (CHR ''-'') s of
           [a, b] \<Rightarrow>
             (case int64_of_str a of
                Inr y \<Rightarrow> (case int64_of_str b of Inr n \<Rightarrow> Some [y, n] | Inl e \<Rightarrow> None)
              | Inl e \<Rightarrow> None)
         | _ \<Rightarrow> None))"

text \<open>The columns \<^verbatim>\<open>sort_by_date\<close> creates for a frequency.\<close>

definition helper_columns :: "string \<Rightarrow> string list" where
  "helper_columns freq =
     (if freq = ''Year'' then [''Year'']
      else if freq = ''Quarter'' then [''Year'', ''QuarterNum'']
      else [''Year'', ''MonthNum''])"

text \<open>
  The documented label formats: \<^verbatim>\<open>YYYY\<close> for a year, \<^verbatim>\<open>YYYY-Q\<close> with \<open>Q\<close> from 1 to 4
  for a quarter, \<^verbatim>\<open>YYYY-MM\<close> with \<open>MM\<close> from 01 to 12 for a month (any frequency other
  than \<^verbatim>\<open>"Year"\<close> and \<^verbatim>\<open>"Quarter"\<close> is taken as monthly, as the code does), and the
  year and sub-period such a label stands for.
\<close>

definition well_formed_label :: "string \<Rightarrow> string \<Rightarrow> bool" where
  "well_formed_label freq s =
     (if freq = ''Year'' then length s = 4 \<and> list_all is_digit s
      else if freq = ''Quarter'' then
        length s = 6 \<and> list_all is_digit (take 4 s) \<and> s ! 4 = CHR ''-'' \<and>
        s ! 5 \<in> set ''1234''
      else
        length s = 7 \<and> list_all is_digit (take 4 s) \<and> s ! 4 = CHR ''-'' \<and>
        list_all is_digit (drop 5 s) \<and> 1 \<le> dec_val (drop 5 s) \<and> dec_val (drop 5 s) \<le> 12)"

definition period_of :: "string \<Rightarrow> string \<Rightarrow> int list" where
  "period_of freq s =
     (if freq = ''Year'' then [int (dec_val s)]
      else [int (dec_val (take 4 s)), int (dec_val (drop 5 s))])"

text \<open>The number a finite cell holds.\<close>

fun fin_val :: "float64 \<Rightarrow> real" where
  "fin_val (Fin a) = a"
| "fin_val _ = 0"

text \<open>The \<open>w\<close> entries strictly before position \<open>i\<close> of a list, for \<open>w \<le> i\<close>.\<close>

definition preceding :: "nat \<Rightarrow> nat \<Rightarrow> 'a list \<Rightarrow> 'a list" where
  "preceding w i xs = take w (drop (i - w) xs)"

definition sample_std :: "real list \<Rightarrow> real" where
  "sample_std obs = sqrt (ssqdm obs / (real (length obs) - 1))"

text \<open>All eight SPC cells of a row are null.\<close>

definition null_spc :: "spc_row \<Rightarrow> bool" where
  "null_spc r \<longleftrightarrow>
     Rolling_CL r = NaN \<and> Rolling_Std r = NaN \<and>
     Rolling_UCL_1STD r = NaN \<and> Rolling_LCL_1STD r = NaN \<and>
     Rolling_UCL_2STD r = NaN \<and> Rolling_LCL_2STD r = NaN \<and>
     Rolling_UCL_3STD r = NaN \<and> Rolling_LCL_3STD r = NaN"

text \<open>All eight SPC cells of a row are finite.\<close>

definition finite_spc :: "spc_row \<Rightarrow> bool" where
  "finite_spc r \<longleftrightarrow>
     isfinite (Rolling_CL r) \<and> isfinite (Rolling_Std r) \<and>
     isfinite (Rolling_UCL_1STD r) \<and> isfinite (Rolling_LCL_1STD r) \<and>
     isfinite (Rolling_UCL_2STD r) \<and> isfinite (Rolling_LCL_2STD r) \<and>
     isfinite (Rolling_UCL_3STD r) \<and> isfinite (Rolling_LCL_3STD r)"

text \<open>The number of rows of the category of row \<open>j\<close> that come after it in the table.\<close>

definition later_in_group :: "'a key_row_scheme list \<Rightarrow> nat \<Rightarrow> nat" where
  "later_in_group df j = length (filter (\<lambda>r. Measure r = Measure (df ! j)) (drop (Suc j) df))"

text \<open>
  A timestamp pandas can hold has a year from 1677 to 2262. A label is unreadable when
  neither the label nor its part before the first hyphen is an integer.
\<close>

definition valid_timestamp :: "timestamp \<Rightarrow> bool" where
  "valid_timestamp d \<longleftrightarrow> 1677 \<le> year d \<and> year d \<le> 2262 \<and> 1 \<le> month d \<and> month d \<le> 12"

definition unreadable_label :: "string \<Rightarrow> bool" where
  "unreadable_label s \<longleftrightarrow>
     int64_of_str s = Inl ValueError \<and>
     int64_of_str (hd (split_on (CHR ''-'') s)) = Inl ValueError"

section \<open>Example tables\<close>

text \<open>
  A monthly row of an aggregated table for a measure counted per 1000 device days; its
  rate is computed from its counters as \<^verbatim>\<open>aggregate_dataframe\<close> does.
\<close>

definition month_row :: "string \<Rightarrow> string \<Rightarrow> int \<Rightarrow> int \<Rightarrow> nat \<Rightarrow> ranked_row" where
  "month_row m d num den n =
     \<lparr>Measure = m, Definitions = ''Per 1000 device days'', Multiplier = 1000,
      Numerator = num, Denominator = den, Expected_Events = 0, Date = d,
      frequency = ''Month'', Rate = fmul (int_truediv num den) (Fin 1000), other = [],
      RowNumber = n\<rparr>"

text \<open>Three months with rates 0, 2, 1; four months, the third with no denominator.\<close>

definition three_months :: "ranked_row list" where
  "three_months =
     [month_row ''CAUTI'' ''2024-01'' 0 1000 3,
      month_row ''CAUTI'' ''2024-02'' 2 1000 2,
      month_row ''CAUTI'' ''2024-03'' 1 1000 1]"

definition zero_denominator_months :: "ranked_row list" where
  "zero_denominator_months =
     [month_row ''CAUTI'' ''2024-01'' 1 1000 4,
      month_row ''CAUTI'' ''2024-02'' 2 1000 3,
      month_row ''CAUTI'' ''2024-03'' 1 0 2,
      month_row ''CAUTI'' ''2024-04'' 3 1000 1]"

text \<open>Rows of an aggregated table before \<^verbatim>\<open>RowNumber\<close> is added.\<close>

definition period_row :: "string \<Rightarrow> string \<Rightarrow> string \<Rightarrow> agg_row" where
  "period_row m f d =
     \<lparr>Measure = m, Definitions = ''Per 1000 device days'', Multiplier = 1000,
      Numerator = 1, Denominator = 1000, Expected_Events = 0, Date = d,
      frequency = f, Rate = Fin 1, other = []\<rparr>"

definition three_quarters :: "agg_row list" where
  "three_quarters =
     [period_row ''CLABSI'' ''Quarter'' ''2024-3'',
      period_row ''CAUTI'' ''Quarter'' ''2024-3'',
      period_row ''CLABSI'' ''Quarter'' ''2023-4'']"

definition one_year :: "agg_row list" where
  "one_year = [period_row ''CAUTI'' ''Year'' ''2024'']"

text \<open>
  Rows of a table with its date columns, as \<^verbatim>\<open>AddDateColumns\<close> gives them when every date
  parses; five records whose monthly aggregation is \<open>zero_denominator_months\<close>.
\<close>

definition dated :: "string \<Rightarrow> int \<Rightarrow> int \<Rightarrow> int \<Rightarrow> nat \<Rightarrow> timestamp option dec_row" where
  "dated m num den y mo =
     \<lparr>Measure = m, Definitions = ''Per 1000 device days'', Multiplier = 1000,
      Numerator = num, Denominator = den, Expected_Events = 0,
      Discharge_Month = Some \<lparr>year = y, month = mo, day = 1\<rparr>,
      Year = str_of_int y,
      Quarter = str_of_int y @ ''-'' @ str_of_int (int ((mo - 1) div 3 + 1)),
      Month = str_of_int y @ ''-'' @ zfill 2 (str_of_int (int mo))\<rparr>"

definition zero_denominator_records :: "timestamp option dec_row list" where
  "zero_denominator_records =
     [dated ''CAUTI'' 1 0 2024 3, dated ''CAUTI'' 3 1000 2024 4,
      dated ''CAUTI'' 1 400 2024 1, dated ''CAUTI'' 2 1000 2024 2,
      dated ''CAUTI'' 0 600 2024 1]"

text \<open>
  Raw records with a date column of strings, and a stand-in for the date parser that
  knows one date.
\<close>

definition example_to_datetime :: "string \<Rightarrow> timestamp option" where
  "example_to_datetime s =
     (if s = ''2024-03-15'' then Some \<lparr>year = 2024, month = 3, day = 15\<rparr> else None)"

definition cauti_record :: "string \<Rightarrow> string src_row" where
  "cauti_record d =
     \<lparr>Measure = ''CAUTI'', Definitions = ''Per 1000 device days'', Multiplier = 1000,
      Numerator = 1, Denominator = 1000, Expected_Events = 0, Discharge_Month = d\<rparr>"

definition mixed_dates :: "string src_row list" where
  "mixed_dates = [cauti_record ''not a date'', cauti_record ''2024-03-15'']"

text \<open>The quarterly and the yearly aggregation of the same five records.\<close>

definition zero_denominator_quarters :: "ranked_row list" where
  "zero_denominator_quarters =
     [\<lparr>Measure = ''CAUTI'', Definitions = ''Per 1000 device days'', Multiplier = 1000,
       Numerator = 4, Denominator = 2000, Expected_Events = 0, Date = ''2024-1'',
       frequency = ''Quarter'', Rate = Fin 2, other = [], RowNumber = 2\<rparr>,
      \<lparr>Measure = ''CAUTI'', Definitions = ''Per 1000 device days'', Multiplier = 1000,
       Numerator = 3, Denominator = 1000, Expected_Events = 0, Date = ''2024-2'',
       frequency = ''Quarter'', Rate = Fin 3, other = [], RowNumber = 1\<rparr>]"

definition zero_denominator_year :: "ranked_row list" where
  "zero_denominator_year =
     [\<lparr>Measure = ''CAUTI'', Definitions = ''Per 1000 device days'', Multiplier = 1000,
       Numerator = 7, Denominator = 3000, Expected_Events = 0, Date = ''2024'',
       frequency = ''Year'', Rate = Fin (7 / 3), other = [], RowNumber = 1\<rparr>]"

section \<open>Grouping: rows by position\<close>

lemma zip_upt_nth: "zip [0..<length xs] xs = map (\<lambda>i. (i, xs ! i)) [0..<length xs]"
  by (rule nth_equalityI) simp_all

lemma map_nth_filter_upt:
  "map ((!) xs) (filter (\<lambda>i. P (xs ! i)) [0..<length xs]) = filter P xs"
proof -
  have "filter P xs = filter P (map ((!) xs) [0..<length xs])"
    by (simp add: map_nth)
  also have "\<dots> = map ((!) xs) (filter (P \<circ> (!) xs) [0..<length xs])"
    by (simp only: filter_map)
  finally show ?thesis by (simp add: comp_def)
qed

lemma length_filter_upt_take:
  assumes "i \<le> length xs"
  shows "length (filter (\<lambda>j. P (xs ! j)) [0..<i]) = length (filter P (take i xs))"
proof -
  have "filter (\<lambda>j. P (xs ! j)) [0..<i] = filter (\<lambda>j. P (take i xs ! j)) [0..<length (take i xs)]"
    using assms by (auto intro: filter_cong)
  then have "length (filter (\<lambda>j. P (xs ! j)) [0..<i])
      = length (map ((!) (take i xs)) (filter (\<lambda>j. P (take i xs ! j)) [0..<length (take i xs)]))"
    by simp
  then show ?thesis by (simp only: map_nth_filter_upt)
qed

lemma filter_upt_rank:
  "p < length (filter Q [0..<n]) \<Longrightarrow>
     filter Q [0..<n] ! p < n \<and> Q (filter Q [0..<n] ! p) \<and>
     length (filter Q [0..<filter Q [0..<n] ! p]) = p"
proof (induction n)
  case 0
  then show ?case by simp
next
  case (Suc n)
  show ?case
  proof (cases "p < length (filter Q [0..<n])")
    case True
    with Suc.IH show ?thesis by (auto simp: nth_append)
  next
    case False
    with Suc.prems have "Q n" and "p = length (filter Q [0..<n])"
      by (auto split: if_splits)
    then show ?thesis by (simp add: nth_append)
  qed
qed

lemma mset_concat_filter_keys:
  "distinct ks \<Longrightarrow> \<forall>x \<in> set xs. g x \<in> set ks \<Longrightarrow>
     mset (concat (map (\<lambda>k. filter (\<lambda>x. g x = k) xs) ks)) = mset xs"
proof (induction ks arbitrary: xs)
  case Nil
  then show ?case by (cases xs) auto
next
  case (Cons k ks)
  let ?rest = "filter (\<lambda>x. g x \<noteq> k) xs"
  have eq: "map (\<lambda>k'. filter (\<lambda>x. g x = k') xs) ks = map (\<lambda>k'. filter (\<lambda>x. g x = k') ?rest) ks"
  proof (rule map_cong[OF refl])
    fix k' assume "k' \<in> set ks"
    with Cons.prems(1) have "k' \<noteq> k" by auto
    then show "filter (\<lambda>x. g x = k') xs = filter (\<lambda>x. g x = k') ?rest"
      by (auto intro: filter_cong)
  qed
  have "\<forall>x \<in> set ?rest. g x \<in> set ks" using Cons.prems(2) by auto
  with Cons.IH[of ?rest] Cons.prems(1)
  have ih: "mset (concat (map (\<lambda>k'. filter (\<lambda>x. g x = k') ?rest) ks)) = mset ?rest" by simp
  have "mset (concat (map (\<lambda>k'. filter (\<lambda>x. g x = k') xs) (k # ks)))
      = mset (filter (\<lambda>x. g x = k) xs) + mset (concat (map (\<lambda>k'. filter (\<lambda>x. g x = k') xs) ks))"
    by simp
  also have "\<dots> = mset (filter (\<lambda>x. g x = k) xs) + mset ?rest"
    by (simp only: eq ih)
  also have "\<dots> = mset xs"
    using multiset_partition[of "mset xs" "\<lambda>x. g x = k"] by simp
  finally show ?case .
qed

lemma groupby_piece:
  fixes df :: "'a key_row_scheme list"
  defines "G \<equiv> \<lambda>k. filter (\<lambda>ir. Measure (snd ir) = k) (zip [0..<length df] df)"
  shows "map fst (G k) = filter (\<lambda>i. Measure (df ! i) = k) [0..<length df]"
    and "map snd (G k) = filter (\<lambda>r. Measure r = k) df"
proof -
  have g: "G k = map (\<lambda>i. (i, df ! i)) (filter (\<lambda>i. Measure (df ! i) = k) [0..<length df])"
    unfolding G_def by (simp only: zip_upt_nth filter_map) (simp add: comp_def)
  show "map fst (G k) = filter (\<lambda>i. Measure (df ! i) = k) [0..<length df]"
    by (simp add: g comp_def)
  have "map snd (G k) = map ((!) df) (filter (\<lambda>i. Measure (df ! i) = k) [0..<length df])"
    by (simp add: g comp_def)
  then show "map snd (G k) = filter (\<lambda>r. Measure r = k) df"
    using map_nth_filter_upt[of df "\<lambda>r. Measure r = k"] by simp
qed

lemma sorted_upt_unique:
  assumes "sorted (xs :: nat list)" and "mset xs = mset [0..<n]"
  shows "xs = [0..<n]"
proof -
  have "sort [0..<n] = xs" using assms by (intro properties_for_sort) simp_all
  then show ?thesis by simp
qed

lemma sorted_pairs_upt:
  assumes fst_s: "map fst s = [0..<n]"
    and elems: "\<And>i v. (i, v) \<in> set s \<Longrightarrow> v = F i"
  shows "map snd s = map F [0..<n]"
proof -
  have len_s: "length s = n"
    using arg_cong[OF fst_s, of length] by simp
  have nth_s: "snd (s ! j) = F j" if "j < n" for j
  proof -
    have "fst (s ! j) = map fst s ! j" using that len_s by simp
    then have "fst (s ! j) = j" using that by (simp add: fst_s)
    moreover have "s ! j \<in> set s" using that len_s by simp
    ultimately have "(j, snd (s ! j)) \<in> set s"
      by (cases "s ! j") auto
    then show ?thesis by (rule elems)
  qed
  show ?thesis
    by (rule nth_equalityI) (simp_all add: len_s nth_s)
qed

lemma groupby_apply_unfold:
  fixes df :: "'a key_row_scheme list"
  shows "groupby_apply f df = map snd (sort_key fst (concat (map (\<lambda>k.
     zip (filter (\<lambda>i. Measure (df ! i) = k) [0..<length df]) (f (filter (\<lambda>r. Measure r = k) df)))
     (sort (remdups (map Measure df))))))"
  unfolding groupby_apply_def Let_def by (simp only: groupby_piece)

lemma groupby_apply_eq:
  fixes df :: "'a key_row_scheme list"
  assumes len: "\<And>g. length (f g) = length g"
  shows "groupby_apply f df = map (\<lambda>j. f (group_of df j) ! pos_in_group df j) [0..<length df]"
proof -
  let ?n = "length df"
  let ?idx = "\<lambda>k. filter (\<lambda>i. Measure (df ! i) = k) [0..<?n]"
  let ?rows = "\<lambda>k. filter (\<lambda>r. Measure r = k) df"
  let ?keys = "sort (remdups (map Measure df))"
  let ?piece = "\<lambda>k. zip (?idx k) (f (?rows k))"
  let ?all = "concat (map ?piece ?keys)"
  let ?F = "\<lambda>j. f (group_of df j) ! pos_in_group df j"
  have len_piece: "length (f (?rows k)) = length (?idx k)" for k
  proof -
    have "length (?rows k) = length (map ((!) df) (?idx k))"
      using map_nth_filter_upt[of df "\<lambda>r. Measure r = k"] by simp
    then show ?thesis by (simp add: len)
  qed
  have "map fst (?piece k) = ?idx k" for k
    using len_piece[of k] by (rule map_fst_zip[OF sym])
  then have fst_all: "map fst ?all = concat (map ?idx ?keys)"
    by (simp only: map_concat map_map comp_def)
  have "mset (concat (map ?idx ?keys)) = mset [0..<?n]"
    by (rule mset_concat_filter_keys) auto
  with fst_all have mset_fst: "mset (map fst ?all) = mset [0..<?n]" by simp
  have elems: "v = ?F i" if "(i, v) \<in> set ?all" for i v
  proof -
    from that obtain k where "(i, v) \<in> set (?piece k)" by auto
    then obtain p where p: "p < length (?idx k)" "?idx k ! p = i" "f (?rows k) ! p = v"
      by (auto simp: in_set_zip)
    from filter_upt_rank[OF p(1)] p(2)
    have i: "i < ?n" "Measure (df ! i) = k"
      and rank: "length (filter (\<lambda>i. Measure (df ! i) = k) [0..<i]) = p"
      by auto
    from i(1) rank have "pos_in_group df i = p"
      unfolding pos_in_group_def i(2)
      using length_filter_upt_take[of i df "\<lambda>r. Measure r = k"] by simp
    with p(3) i(2) show ?thesis by (simp add: group_of_def)
  qed
  let ?s = "sort_key fst ?all"
  have "mset (map fst ?s) = mset [0..<?n]"
    using mset_fst by simp
  then have fst_s: "map fst ?s = [0..<?n]"
    by (intro sorted_upt_unique) simp_all
  have "map snd ?s = map ?F [0..<?n]"
  proof (rule sorted_pairs_upt[OF fst_s])
    fix i v assume "(i, v) \<in> set ?s"
    then have "(i, v) \<in> set ?all" by (simp only: set_sort)
    then show "v = ?F i" by (rule elems)
  qed
  then show ?thesis by (simp only: groupby_apply_unfold)
qed

lemma group_of_split:
  assumes "j < length df"
  shows "group_of df j = filter (\<lambda>r. Measure r = Measure (df ! j)) (take j df)
           @ df ! j # filter (\<lambda>r. Measure r = Measure (df ! j)) (drop (Suc j) df)"
proof -
  have "df = take j df @ df ! j # drop (Suc j) df"
    using assms by (rule id_take_nth_drop)
  then have "group_of df j = filter (\<lambda>r. Measure r = Measure (df ! j)) (take j df @ df ! j # drop (Suc j) df)"
    unfolding group_of_def by simp
  then show ?thesis by simp
qed

lemma group_of_pos:
  assumes "j < length df"
  shows "pos_in_group df j < length (group_of df j)"
    and "group_of df j ! pos_in_group df j = df ! j"
    and "take (pos_in_group df j) (group_of df j)
           = filter (\<lambda>r. Measure r = Measure (df ! j)) (take j df)"
  unfolding group_of_split[OF assms] by (simp_all add: pos_in_group_def nth_append)

section \<open>Rolling windows\<close>

lemma window_bounds_left:
  "i \<le> n \<Longrightarrow> get_window_bounds n w i = (i - w, i)"
  unfolding get_window_bounds_def Let_def by auto

lemma prep_values_take_drop:
  "take a (drop b (prep_values xs)) = prep_values (take a (drop b xs))"
  by (simp add: prep_values_def take_map drop_map)

lemma window_obs_before:
  assumes "i < length xs" and "w \<le> i"
  shows "window_obs xs w i = valid_obs (prep_values (preceding w i xs))"
proof -
  have "i - (i - w) = w" using assms(2) by simp
  then show ?thesis
    using assms(1)
    by (simp add: window_obs_def window_bounds_left prep_values_take_drop preceding_def)
qed

lemma window_obs_early:
  assumes "i < length xs" and "i < w"
  shows "window_obs xs w i = valid_obs (prep_values (take i xs))"
  using assms by (simp add: window_obs_def window_bounds_left prep_values_take_drop)

lemma length_valid_obs_le: "length (valid_obs ys) \<le> length ys"
  by (induction ys rule: valid_obs.induct) auto

lemma length_prep_values: "length (prep_values ys) = length ys"
  by (simp add: prep_values_def)

lemma valid_obs_finite:
  "list_all isfinite ys \<Longrightarrow> valid_obs (prep_values ys) = map fin_val ys"
proof (induction ys)
  case Nil
  then show ?case by (simp add: prep_values_def)
next
  case (Cons y ys)
  then show ?case by (cases y) (simp_all add: prep_values_def)
qed

lemma valid_obs_not_finite:
  "\<not> list_all isfinite ys \<Longrightarrow> length (valid_obs (prep_values ys)) < length ys"
proof (induction ys)
  case Nil
  then show ?case by simp
next
  case (Cons y ys)
  have le: "length (valid_obs (prep_values ys)) \<le> length ys"
    using length_valid_obs_le[of "prep_values ys"] by (simp add: length_prep_values)
  show ?case
  proof (cases y)
    case (Fin a)
    with Cons show ?thesis by (simp add: prep_values_def)
  next
    case PInf
    with le show ?thesis by (simp add: prep_values_def)
  next
    case NInf
    with le show ?thesis by (simp add: prep_values_def)
  next
    case NaN
    with le show ?thesis by (simp add: prep_values_def)
  qed
qed

lemma length_preceding: "w \<le> i \<Longrightarrow> i \<le> length xs \<Longrightarrow> length (preceding w i xs) = w"
  by (simp add: preceding_def)

lemma ssqdm_nonneg: "0 \<le> ssqdm obs"
  unfolding ssqdm_def by (rule sum_list_nonneg) auto

text \<open>The two rolling columns, cell by cell.\<close>

lemma rolling_mean_nth:
  assumes "i < length xs"
  shows "rolling_mean w w xs ! i =
     (if w \<le> i \<and> 1 \<le> w \<and> list_all isfinite (preceding w i xs)
      then Fin (mean (map fin_val (preceding w i xs))) else NaN)"
proof (cases "w \<le> i")
  case True
  note wi = this
  have len: "length (preceding w i xs) = w"
    using wi assms by (simp add: length_preceding)
  have nth: "rolling_mean w w xs ! i = roll_mean w (valid_obs (prep_values (preceding w i xs)))"
    using assms wi by (simp add: rolling_mean_def window_obs_before)
  show ?thesis
  proof (cases "list_all isfinite (preceding w i xs)")
    case True
    then show ?thesis
      using wi len by (auto simp: nth valid_obs_finite roll_mean_def)
  next
    case False
    from valid_obs_not_finite[OF this] len
    have "length (valid_obs (prep_values (preceding w i xs))) < w" by simp
    then show ?thesis using False by (simp add: nth roll_mean_def)
  qed
next
  case False
  then have iw: "i < w" by simp
  have "length (valid_obs (prep_values (take i xs))) \<le> i"
    using length_valid_obs_le[of "prep_values (take i xs)"] assms
    by (simp add: length_prep_values)
  then have "length (window_obs xs w i) < w"
    using iw assms by (simp add: window_obs_early)
  then show ?thesis
    using assms False by (simp add: rolling_mean_def roll_mean_def)
qed

lemma rolling_std_nth:
  assumes "i < length xs"
  shows "rolling_std w w xs ! i =
     (if w \<le> i \<and> 2 \<le> w \<and> list_all isfinite (preceding w i xs)
      then Fin (sample_std (map fin_val (preceding w i xs))) else NaN)"
proof (cases "w \<le> i")
  case True
  note wi = this
  have len: "length (preceding w i xs) = w"
    using wi assms by (simp add: length_preceding)
  have nth: "rolling_std w w xs ! i
      = zsqrt (roll_var w 1 (valid_obs (prep_values (preceding w i xs))))"
    using assms wi by (simp add: rolling_std_def window_obs_before)
  show ?thesis
  proof (cases "list_all isfinite (preceding w i xs)")
    case True
    show ?thesis
    proof (cases "2 \<le> w")
      case True
      have "0 \<le> ssqdm (map fin_val (preceding w i xs)) / (real w - 1)"
        using True ssqdm_nonneg by (intro divide_nonneg_nonneg) simp_all
      then show ?thesis
        using \<open>list_all isfinite (preceding w i xs)\<close> wi len True
        by (simp add: nth valid_obs_finite roll_var_def sample_std_def not_less[symmetric])
    next
      case False
      then show ?thesis
        using \<open>list_all isfinite (preceding w i xs)\<close> len
        by (simp add: nth valid_obs_finite roll_var_def)
    qed
  next
    case False
    from valid_obs_not_finite[OF this] len
    have "length (valid_obs (prep_values (preceding w i xs))) < w" by simp
    then show ?thesis using False by (simp add: nth roll_var_def)
  qed
next
  case False
  then have iw: "i < w" by simp
  have "length (valid_obs (prep_values (take i xs))) \<le> i"
    using length_valid_obs_le[of "prep_values (take i xs)"] assms
    by (simp add: length_prep_values)
  then have "length (window_obs xs w i) < w"
    using iw assms by (simp add: window_obs_early)
  then show ?thesis
    using assms False by (simp add: rolling_std_def roll_var_def)
qed

section \<open>The SPC columns, row by row\<close>

lemma length_rolling_mean: "length (rolling_mean w m xs) = length xs"
  by (simp add: rolling_mean_def)

lemma length_rolling_std: "length (rolling_std w m xs) = length xs"
  by (simp add: rolling_std_def)

lemma length_calc_rolling: "length (calc_rolling w g) = length g"
  by (simp add: calc_rolling_def Let_def)

lemma calc_rolling_nth:
  fixes w :: nat
  assumes "i < length g"
  defines "cl \<equiv> rolling_mean w w (map Rate g) ! i"
    and "sd \<equiv> rolling_std w w (map Rate g) ! i"
  shows "calc_rolling w g ! i = ranked_row.extend (g ! i)
     (spc_row.fields cl sd
        (fadd cl (fmul (Fin 1) sd)) (clip_lower 0 (fsub cl (fmul (Fin 1) sd)))
        (fadd cl (fmul (Fin 2) sd)) (clip_lower 0 (fsub cl (fmul (Fin 2) sd)))
        (fadd cl (fmul (Fin 3) sd)) (clip_lower 0 (fsub cl (fmul (Fin 3) sd))))"
  using assms(1) unfolding calc_rolling_def Let_def cl_def sd_def
  by (simp add: length_rolling_mean length_rolling_std)

lemma length_groupby_calc: "length (groupby_apply (calc_rolling w) df) = length df"
  by (simp add: groupby_apply_eq length_calc_rolling)

lemma length_rolling_spc_agg: "length (rolling_spc_agg df w sigma) = length df"
  by (simp add: rolling_spc_agg_def Let_def length_groupby_calc)

lemma frequency_extend:
  "frequency (ranked_row.extend r more) = frequency r"
  by (simp add: ranked_row.defs)

lemma rolling_spc_agg_nth:
  assumes "j < length df"
  shows "rolling_spc_agg df w sigma ! j =
     (if frequency (df ! j) = ''Year''
      then null_spc_cols (calc_rolling w (group_of df j) ! pos_in_group df j)
      else calc_rolling w (group_of df j) ! pos_in_group df j)"
proof -
  have pos: "pos_in_group df j < length (group_of df j)"
    and row: "group_of df j ! pos_in_group df j = df ! j"
    using group_of_pos[OF assms] by simp_all
  have g: "groupby_apply (calc_rolling w) df ! j
      = calc_rolling w (group_of df j) ! pos_in_group df j"
    using assms by (simp add: groupby_apply_eq length_calc_rolling)
  have "frequency (calc_rolling w (group_of df j) ! pos_in_group df j) = frequency (df ! j)"
    by (simp add: calc_rolling_nth[OF pos] row ranked_row.defs)
  then show ?thesis
    using assms
    by (simp add: rolling_spc_agg_def Let_def length_groupby_calc g)
qed

text \<open>The cells of one output row.\<close>

lemma rolling_spc_agg_row:
  fixes w :: nat and sigma :: int
  assumes "j < length df"
  defines "out \<equiv> rolling_spc_agg df w sigma ! j"
    and "rates \<equiv> map Rate (group_of df j)"
    and "i \<equiv> pos_in_group df j"
  shows "ranked_row.truncate out = df ! j"
    and "Rolling_CL out = (if frequency (df ! j) = ''Year'' then NaN else rolling_mean w w rates ! i)"
    and "Rolling_Std out = (if frequency (df ! j) = ''Year'' then NaN else rolling_std w w rates ! i)"
    and "Rolling_UCL_1STD out = fadd (Rolling_CL out) (fmul (Fin 1) (Rolling_Std out))"
    and "Rolling_LCL_1STD out = clip_lower 0 (fsub (Rolling_CL out) (fmul (Fin 1) (Rolling_Std out)))"
    and "Rolling_UCL_2STD out = fadd (Rolling_CL out) (fmul (Fin 2) (Rolling_Std out))"
    and "Rolling_LCL_2STD out = clip_lower 0 (fsub (Rolling_CL out) (fmul (Fin 2) (Rolling_Std out)))"
    and "Rolling_UCL_3STD out = fadd (Rolling_CL out) (fmul (Fin 3) (Rolling_Std out))"
    and "Rolling_LCL_3STD out = clip_lower 0 (fsub (Rolling_CL out) (fmul (Fin 3) (Rolling_Std out)))"
proof -
  have pos: "pos_in_group df j < length (group_of df j)"
    and row: "group_of df j ! pos_in_group df j = df ! j"
    using group_of_pos[OF assms(1)] by simp_all
  note nth = rolling_spc_agg_nth[OF assms(1), of w sigma] calc_rolling_nth[OF pos, of w]
  show "ranked_row.truncate out = df ! j"
    unfolding out_def nth
    by (simp add: row null_spc_cols_def key_row.defs agg_row.defs ranked_row.defs spc_row.defs)
  show "Rolling_CL out = (if frequency (df ! j) = ''Year'' then NaN else rolling_mean w w rates ! i)"
    unfolding out_def nth rates_def i_def
    by (simp add: null_spc_cols_def ranked_row.defs spc_row.defs)
  show "Rolling_Std out = (if frequency (df ! j) = ''Year'' then NaN else rolling_std w w rates ! i)"
    unfolding out_def nth rates_def i_def
    by (simp add: null_spc_cols_def ranked_row.defs spc_row.defs)
  show "Rolling_UCL_1STD out = fadd (Rolling_CL out) (fmul (Fin 1) (Rolling_Std out))"
    unfolding out_def nth
    by (simp add: null_spc_cols_def ranked_row.defs spc_row.defs)
  show "Rolling_LCL_1STD out = clip_lower 0 (fsub (Rolling_CL out) (fmul (Fin 1) (Rolling_Std out)))"
    unfolding out_def nth
    by (simp add: null_spc_cols_def ranked_row.defs spc_row.defs fsub_def)
  show "Rolling_UCL_2STD out = fadd (Rolling_CL out) (fmul (Fin 2) (Rolling_Std out))"
    unfolding out_def nth
    by (simp add: null_spc_cols_def ranked_row.defs spc_row.defs)
  show "Rolling_LCL_2STD out = clip_lower 0 (fsub (Rolling_CL out) (fmul (Fin 2) (Rolling_Std out)))"
    unfolding out_def nth
    by (simp add: null_spc_cols_def ranked_row.defs spc_row.defs fsub_def)
  show "Rolling_UCL_3STD out = fadd (Rolling_CL out) (fmul (Fin 3) (Rolling_Std out))"
    unfolding out_def nth
    by (simp add: null_spc_cols_def ranked_row.defs spc_row.defs)
  show "Rolling_LCL_3STD out = clip_lower 0 (fsub (Rolling_CL out) (fmul (Fin 3) (Rolling_Std out)))"
    unfolding out_def nth
    by (simp add: null_spc_cols_def ranked_row.defs spc_row.defs fsub_def)
qed

lemma not_fnegative_clip: "\<not> fnegative (clip_lower 0 x)"
  by (cases x) simp_all

lemma month_row_simps:
  "Measure (month_row m d num den n) = m"
  "frequency (month_row m d num den n) = ''Month''"
  "Rate (month_row m d num den n) = fmul (int_truediv num den) (Fin 1000)"
  by (simp_all add: month_row_def)

section \<open>Claims about \<^verbatim>\<open>rolling_spc_agg\<close>\<close>

text \<open>
  Claim C8. For every input table and window size the output of \<^verbatim>\<open>rolling_spc_agg\<close> is
  the same for any two values of \<open>sigma\<close>: the three pairs of bands are always produced
  and the argument has no effect on any output value.
\<close>

theorem sigma_has_no_effect:
  "rolling_spc_agg df window_size sigma = rolling_spc_agg df window_size sigma'"
  by (simp add: rolling_spc_agg_def)

text \<open>
  Claim C4. For every row \<^verbatim>\<open>rolling_spc_agg\<close> produces and every \<open>k\<close> in \<open>{1, 2, 3}\<close>, the
  upper limit is \<open>Rolling_CL + k * Rolling_Std\<close> and the lower limit is
  \<open>Rolling_CL - k * Rolling_Std\<close> clipped at zero, so the lower limit is never negative,
  also where the unclipped value is. On a row whose center line or deviation is null the
  limits are null.
\<close>

theorem control_limit_bands:
  fixes w :: nat and sigma :: int
  assumes "j < length df" and "k \<in> {1, 2, 3}"
  defines "out \<equiv> rolling_spc_agg df w sigma ! j"
  shows "Rolling_UCL k out = fadd (Rolling_CL out) (fmul (Fin (real k)) (Rolling_Std out)) \<and>
         Rolling_LCL k out = clip_lower 0 (fsub (Rolling_CL out) (fmul (Fin (real k)) (Rolling_Std out))) \<and>
         (\<forall>c s. Rolling_CL out = Fin c \<and> Rolling_Std out = Fin s \<longrightarrow>
            Rolling_UCL k out = Fin (c + real k * s) \<and>
            Rolling_LCL k out = Fin (max 0 (c - real k * s))) \<and>
         \<not> fnegative (Rolling_LCL k out)"
proof -
  note row = rolling_spc_agg_row[OF assms(1), of w sigma, folded out_def]
  have ucl: "Rolling_UCL k out = fadd (Rolling_CL out) (fmul (Fin (real k)) (Rolling_Std out))"
    using assms(2) by (auto simp: Rolling_UCL_def row)
  have lcl: "Rolling_LCL k out = clip_lower 0 (fsub (Rolling_CL out) (fmul (Fin (real k)) (Rolling_Std out)))"
    using assms(2) by (auto simp: Rolling_LCL_def row)
  have "\<not> fnegative (Rolling_LCL k out)"
    unfolding lcl by (rule not_fnegative_clip)
  moreover have "Rolling_UCL k out = Fin (c + real k * s) \<and>
      Rolling_LCL k out = Fin (max 0 (c - real k * s))"
    if "Rolling_CL out = Fin c" "Rolling_Std out = Fin s" for c s
    unfolding ucl lcl using that by (simp add: fsub_def)
  ultimately show ?thesis using ucl lcl by blast
qed

lemma map_preceding: "map f (preceding w i xs) = preceding w i (map f xs)"
  by (simp add: preceding_def take_map drop_map)

lemma three_months_group:
  "length three_months = 3"
  "frequency (three_months ! 2) = ''Month''"
  "pos_in_group three_months 2 = 2"
  "group_of three_months 2 = three_months"
  "map Rate three_months = [Fin 0, Fin 2, Fin 1]"
  by (simp_all add: three_months_def group_of_def pos_in_group_def month_row_simps
      int_truediv_def)

lemma zero_denominator_months_group:
  "length zero_denominator_months = 4"
  "frequency (zero_denominator_months ! 2) = ''Month''"
  "frequency (zero_denominator_months ! 3) = ''Month''"
  "Denominator (zero_denominator_months ! 2) = 0"
  "Rate (zero_denominator_months ! 2) = PInf"
  "pos_in_group zero_denominator_months 2 = 2"
  "pos_in_group zero_denominator_months 3 = 3"
  "group_of zero_denominator_months 2 = zero_denominator_months"
  "group_of zero_denominator_months 3 = zero_denominator_months"
  "map Rate zero_denominator_months = [Fin 1, Fin 2, PInf, Fin 3]"
  by (simp_all add: zero_denominator_months_def group_of_def pos_in_group_def month_row_def
      int_truediv_def inf_of_sign_def)

lemma sample_std_0_2: "sample_std [0, 2] = sqrt 2"
  by (simp add: sample_std_def ssqdm_def mean_def)

lemma sample_std_1_2: "sample_std [1, 2] = sqrt (1 / 2)"
  by (simp add: sample_std_def ssqdm_def mean_def power2_eq_square)

text \<open>The two rolling cells of a row that is not a yearly one, from its group.\<close>

lemma spc_cells_eval:
  fixes w :: nat and sigma :: int
  assumes "j < length df" and "frequency (df ! j) \<noteq> ''Year''"
    and "map Rate (group_of df j) = rates" and "pos_in_group df j = i"
  shows "Rolling_CL (rolling_spc_agg df w sigma ! j) =
           (if w \<le> i \<and> 1 \<le> w \<and> list_all isfinite (preceding w i rates)
            then Fin (mean (map fin_val (preceding w i rates))) else NaN)"
    and "Rolling_Std (rolling_spc_agg df w sigma ! j) =
           (if w \<le> i \<and> 2 \<le> w \<and> list_all isfinite (preceding w i rates)
            then Fin (sample_std (map fin_val (preceding w i rates))) else NaN)"
proof -
  have pos: "i < length rates"
    using group_of_pos(1)[OF assms(1)] assms(3,4) by (metis length_map)
  show "Rolling_CL (rolling_spc_agg df w sigma ! j) =
           (if w \<le> i \<and> 1 \<le> w \<and> list_all isfinite (preceding w i rates)
            then Fin (mean (map fin_val (preceding w i rates))) else NaN)"
    using assms(2) rolling_mean_nth[OF pos, of w]
    by (simp add: rolling_spc_agg_row(2)[OF assms(1)] assms(3,4))
  show "Rolling_Std (rolling_spc_agg df w sigma ! j) =
           (if w \<le> i \<and> 2 \<le> w \<and> list_all isfinite (preceding w i rates)
            then Fin (sample_std (map fin_val (preceding w i rates))) else NaN)"
    using assms(2) rolling_std_nth[OF pos, of w]
    by (simp add: rolling_spc_agg_row(3)[OF assms(1)] assms(3,4))
qed

lemma three_months_cells:
  "Rolling_CL (rolling_spc_agg three_months 2 3 ! 2) = Fin 1"
  "Rolling_Std (rolling_spc_agg three_months 2 3 ! 2) = Fin (sqrt 2)"
  "Rolling_CL (rolling_spc_agg three_months 1 3 ! 2) = Fin 2"
  "Rolling_Std (rolling_spc_agg three_months 1 3 ! 2) = NaN"
  by (simp_all add: spc_cells_eval[where rates = "[Fin 0, Fin 2, Fin 1]" and i = 2]
      three_months_group preceding_def mean_def sample_std_0_2)

lemma zero_denominator_months_cells:
  "Rolling_CL (rolling_spc_agg zero_denominator_months 2 3 ! 2) = Fin (3 / 2)"
  "Rolling_Std (rolling_spc_agg zero_denominator_months 2 3 ! 2) = Fin (sqrt (1 / 2))"
  "Rolling_CL (rolling_spc_agg zero_denominator_months 2 3 ! 3) = NaN"
  "Rolling_Std (rolling_spc_agg zero_denominator_months 2 3 ! 3) = NaN"
  by (simp_all add: spc_cells_eval[where rates = "[Fin 1, Fin 2, PInf, Fin 3]" and i = 2]
      spc_cells_eval[where rates = "[Fin 1, Fin 2, PInf, Fin 3]" and i = 3]
      zero_denominator_months_group preceding_def mean_def sample_std_1_2)

theorem control_limit_bands_witness:
  "2 < length three_months \<and> (1::nat) \<in> {1, 2, 3} \<and>
   Rolling_UCL 1 (rolling_spc_agg three_months 2 3 ! 2) = Fin (1 + sqrt 2) \<and>
   Rolling_LCL 1 (rolling_spc_agg three_months 2 3 ! 2) = Fin 0 \<and>
   \<not> fnegative (Rolling_LCL 1 (rolling_spc_agg three_months 2 3 ! 2))"
proof -
  have j: "2 < length three_months" by (simp add: three_months_group)
  have k: "(1::nat) \<in> {1, 2, 3}" by simp
  have "max 0 (1 - sqrt 2) = 0" by simp
  with control_limit_bands[OF j k, of 2 3] three_months_cells j
  show ?thesis by (simp add: fsub_def)
qed

text \<open>
  Claim C1, as amended. Row \<open>j\<close> of the input is at position \<open>i\<close> of its category. If the
  row is tagged \<^verbatim>\<open>Year\<close>, all eight SPC cells are null. Otherwise \<open>Rolling_CL\<close> is the mean
  of \<open>Rate\<close> over the \<open>w\<close> rows strictly before \<open>i\<close> when \<open>1 \<le> w \<le> i\<close> and those
  rates are all finite, and null in every other case; \<open>Rolling_Std\<close> is their sample
  standard deviation when \<open>2 \<le> w \<le> i\<close> and those rates are all finite, and null in every
  other case. The table need not be sorted for this.
\<close>

theorem rolling_window_statistics:
  fixes w :: nat and sigma :: int
  assumes "j < length df"
  defines "out \<equiv> rolling_spc_agg df w sigma ! j"
    and "i \<equiv> pos_in_group df j"
    and "prev \<equiv> map Rate (preceding w (pos_in_group df j) (group_of df j))"
  shows "length (rolling_spc_agg df w sigma) = length df \<and>
         (frequency (df ! j) = ''Year'' \<longrightarrow> null_spc out) \<and>
         (frequency (df ! j) \<noteq> ''Year'' \<longrightarrow>
            Rolling_CL out =
              (if w \<le> i \<and> 1 \<le> w \<and> list_all isfinite prev
               then Fin (mean (map fin_val prev)) else NaN) \<and>
            Rolling_Std out =
              (if w \<le> i \<and> 2 \<le> w \<and> list_all isfinite prev
               then Fin (sample_std (map fin_val prev)) else NaN))"
proof -
  have pos: "pos_in_group df j < length (map Rate (group_of df j))"
    using group_of_pos(1)[OF assms(1)] by simp
  have prev: "preceding w i (map Rate (group_of df j)) = prev"
    by (simp add: prev_def i_def preceding_def take_map drop_map)
  note row = rolling_spc_agg_row[OF assms(1), of w sigma, folded out_def]
  have "null_spc out" if "frequency (df ! j) = ''Year''"
    using that by (simp add: null_spc_def row fsub_def)
  moreover have "Rolling_CL out =
      (if w \<le> i \<and> 1 \<le> w \<and> list_all isfinite prev
       then Fin (mean (map fin_val prev)) else NaN)" if "frequency (df ! j) \<noteq> ''Year''"
    using that rolling_mean_nth[OF pos, of w] by (simp add: row prev i_def[symmetric])
  moreover have "Rolling_Std out =
      (if w \<le> i \<and> 2 \<le> w \<and> list_all isfinite prev
       then Fin (sample_std (map fin_val prev)) else NaN)" if "frequency (df ! j) \<noteq> ''Year''"
    using that rolling_std_nth[OF pos, of w] by (simp add: row prev i_def[symmetric])
  ultimately show ?thesis by (simp add: length_rolling_spc_agg)
qed



theorem rolling_window_statistics_witness:
  "2 < length three_months \<and>
   Rolling_CL (rolling_spc_agg three_months 2 3 ! 2) = Fin 1 \<and>
   Rolling_Std (rolling_spc_agg three_months 2 3 ! 2) = Fin (sqrt 2)"
proof -
  have j: "2 < length three_months" by (simp add: three_months_group)
  show ?thesis
    using rolling_window_statistics[OF j, of 2 3] j
    by (simp add: three_months_group map_preceding,
        simp add: preceding_def mean_def sample_std_0_2)
qed

text \<open>
  The claim as first stated fails for a window of one row, where the deviation of every
  row is null, and for a window that holds a rate that is not finite.
\<close>

theorem rolling_std_null_counterexample:
  "pos_in_group three_months 2 = 2 \<and> frequency (three_months ! 2) = ''Month'' \<and>
   Rolling_CL (rolling_spc_agg three_months 1 3 ! 2) = Fin 2 \<and>
   Rolling_Std (rolling_spc_agg three_months 1 3 ! 2) = NaN \<and>
   pos_in_group zero_denominator_months 3 = 3 \<and>
   frequency (zero_denominator_months ! 3) = ''Month'' \<and>
   Rolling_CL (rolling_spc_agg zero_denominator_months 2 3 ! 3) = NaN \<and>
   Rolling_Std (rolling_spc_agg zero_denominator_months 2 3 ! 3) = NaN"
  using three_months_cells zero_denominator_months_cells
  by (simp add: three_months_group zero_denominator_months_group)

section \<open>Further columns\<close>

lemma map_of_put_cell_same: "map_of (put_cell c v kvs) c = Some v"
  by (induction kvs) auto

lemma map_of_put_cell_other: "c' \<noteq> c \<Longrightarrow> map_of (put_cell c v kvs) c' = map_of kvs c'"
  by (induction kvs) auto

lemma filter_put_cell:
  "c \<in> set cs \<Longrightarrow> filter (\<lambda>kv. fst kv \<notin> set cs) (put_cell c v kvs)
     = filter (\<lambda>kv. fst kv \<notin> set cs) kvs"
  by (induction kvs) auto

lemma setitem_map:
  "setitem c (map h xs) (map u xs)
     = map (\<lambda>x. (u x)\<lparr>other := put_cell c (h x) (other (u x))\<rparr>) xs"
  unfolding setitem_def by (induction xs) simp_all

lemma setitem_map_id:
  "setitem c (map h xs) xs = map (\<lambda>x. x\<lparr>other := put_cell c (h x) (other x)\<rparr>) xs"
  using setitem_map[where u = "\<lambda>x. x"] by simp

lemma getitem_map:
  "getitem c (map u xs) = map (\<lambda>x. case map_of (other (u x)) c of Some v \<Rightarrow> v | None \<Rightarrow> CNone) xs"
  by (simp add: getitem_def comp_def)

section \<open>Reading integers\<close>

lemma astype_int_map:
  "(\<And>x. x \<in> set xs \<Longrightarrow> astype_int_cell (h x) = Inr (v x)) \<Longrightarrow>
     astype_int (map h xs) = Inr (map v xs)"
  by (induction xs) simp_all

lemma astype_int_Inr:
  "astype_int cs = Inr ns \<Longrightarrow> list_all2 (\<lambda>c n. astype_int_cell c = Inr n) cs ns"
  by (induction cs arbitrary: ns) (auto split: sum.splits)

lemma astype_int_map_Inr:
  assumes "astype_int (map h xs) = Inr ns"
  shows "ns = map (\<lambda>x. projr (astype_int_cell (h x))) xs"
    and "\<And>x. x \<in> set xs \<Longrightarrow> \<exists>n. astype_int_cell (h x) = Inr n"
proof -
  from astype_int_Inr[OF assms]
  have l2: "list_all2 (\<lambda>c n. astype_int_cell c = Inr n) (map h xs) ns" .
  then have len: "length ns = length xs" by (auto dest: list_all2_lengthD)
  have nth: "astype_int_cell (h (xs ! i)) = Inr (ns ! i)" if "i < length xs" for i
    using l2 that by (auto simp: list_all2_conv_all_nth)
  show "ns = map (\<lambda>x. projr (astype_int_cell (h x))) xs"
    by (rule nth_equalityI) (simp_all add: len nth)
  show "\<exists>n. astype_int_cell (h x) = Inr n" if "x \<in> set xs" for x
    using that nth by (auto simp: in_set_conv_nth)
qed

lemma astype_int_first_fails:
  "astype_int_cell c = Inl e \<Longrightarrow> astype_int (c # cs) = Inl e"
  by simp

section \<open>Splitting\<close>

lemma split_on_nonempty: "split_on sep s \<noteq> []"
  by (induction s) auto

lemma length_split_on_pos: "0 < length (split_on sep s)"
  using split_on_nonempty[of sep s] by simp

lemma str_split_expand_ncols:
  "length (str_split_expand sep col)
     = (if col = [] then 0 else Max (set (map (\<lambda>s. length (split_on sep s)) col)))"
  by (simp add: str_split_expand_def Let_def comp_def)

lemma str_split_expand_nth:
  assumes "c < length (str_split_expand sep col)"
  shows "str_split_expand sep col ! c
     = map (\<lambda>s. if c < length (split_on sep s) then CStr (split_on sep s ! c) else CNone) col"
proof -
  define n where "n = (if col = [] then 0 else Max (set (map (\<lambda>s. length (split_on sep s)) col)))"
  define F where "F = (\<lambda>c. map (\<lambda>s. if c < length (split_on sep s)
      then CStr (split_on sep s ! c) else CNone) col)"
  have eq: "str_split_expand sep col = map F [0..<n]"
    by (simp add: str_split_expand_def Let_def comp_def n_def F_def)
  with assms have "c < n" by simp
  then have "map F [0..<n] ! c = F c" by simp
  then show ?thesis by (simp add: eq F_def)
qed

lemma Max_lengths_le:
  assumes "col \<noteq> []" and "s \<in> set col"
  shows "length (split_on sep s) \<le> Max (set (map (\<lambda>s. length (split_on sep s)) col))"
  using assms by (intro Max_ge) auto

lemma two_columns_iff_all_two:
  assumes "col \<noteq> []" and "\<forall>s \<in> set col. length (split_on sep s) = 2"
  shows "length (str_split_expand sep col) = 2"
proof -
  have "set (map (\<lambda>s. length (split_on sep s)) col) = {2}"
    using assms by (cases col) auto
  then show ?thesis using assms(1) by (simp add: str_split_expand_ncols)
qed

section \<open>Sorting by equivalent keys\<close>

lemma insort_key_equiv:
  "(\<And>y. y \<in> set ys \<Longrightarrow> (f x \<le> f y) = (g x \<le> g y)) \<Longrightarrow>
     insort_key f x ys = insort_key g x ys"
  by (induction ys) simp_all

lemma sort_key_equiv:
  "(\<And>x y. x \<in> set xs \<Longrightarrow> y \<in> set xs \<Longrightarrow> (f x \<le> f y) = (g x \<le> g y)) \<Longrightarrow>
     sort_key f xs = sort_key g xs"
proof (induction xs)
  case Nil
  then show ?case by simp
next
  case (Cons x xs)
  have "sort_key f xs = sort_key g xs"
    by (rule Cons.IH) (simp add: Cons.prems)
  moreover have "insort_key f x (sort_key g xs) = insort_key g x (sort_key g xs)"
    by (rule insort_key_equiv) (simp add: Cons.prems)
  ultimately show ?case by simp
qed

lemma insort_key_map:
  "insort_key f (u x) (map u ys) = map u (insort_key (\<lambda>x. f (u x)) x ys)"
  by (induction ys) simp_all

lemma sort_key_map:
  "sort_key f (map u xs) = map u (sort_key (\<lambda>x. f (u x)) xs)"
  by (induction xs) (simp_all add: insort_key_map)

lemma cell_le_simps:
  "(CStr a \<le> CStr b) = (a \<le> b)"
  "(CStr a < CStr b) = (a < b)"
  "(CInt i \<le> CInt j) = (i \<le> j)"
  "(CInt i < CInt j) = (i < j)"
  by (auto simp: less_eq_cell_def less_cell_def)

lemma key_le_year:
  "([CStr m, CInt y] \<le> [CStr m', CInt y']) = ((m, [y]) \<le> (m', [y']))"
  by (auto simp: cell_le_simps less_eq_prod_def less_prod_def)

lemma key_le_sub:
  "([CStr m, CInt y, CInt n] \<le> [CStr m', CInt y', CInt n'])
     = ((m, [y, n]) \<le> (m', [y', n']))"
  by (auto simp: cell_le_simps less_eq_prod_def less_prod_def)

section \<open>\<^verbatim>\<open>sort_by_date\<close> in closed form\<close>

lemma drop_columns_map_put:
  assumes "\<And>x. filter (\<lambda>kv. fst kv \<notin> set cs) (other (u x)) = filter (\<lambda>kv. fst kv \<notin> set cs) (other x)"
    and "\<And>x. u x\<lparr>other := other x\<rparr> = x"
  shows "drop_columns cs (map u xs) = drop_columns cs xs"
proof -
  have "(u x)\<lparr>other := filter (\<lambda>kv. fst kv \<notin> set cs) (other (u x))\<rparr>
      = x\<lparr>other := filter (\<lambda>kv. fst kv \<notin> set cs) (other x)\<rparr>" for x
  proof -
    have "(u x)\<lparr>other := filter (\<lambda>kv. fst kv \<notin> set cs) (other x)\<rparr>
        = (u x\<lparr>other := other x\<rparr>)\<lparr>other := filter (\<lambda>kv. fst kv \<notin> set cs) (other x)\<rparr>"
      by simp
    then show ?thesis by (simp only: assms)
  qed
  then show ?thesis by (simp add: drop_columns_def)
qed

lemma label_period_Year:
  "label_period ''Year'' s \<noteq> None \<longleftrightarrow> (\<exists>y. int64_of_str s = Inr y)"
  "int64_of_str s = Inr y \<Longrightarrow> label_period ''Year'' s = Some [y]"
  by (auto simp: label_period_def split: sum.splits)

lemma label_period_sub:
  assumes "freq \<noteq> ''Year''"
  shows "label_period freq s \<noteq> None \<longleftrightarrow>
           length (split_on (CHR ''-'') s) = 2 \<and>
           (\<exists>y. int64_of_str (split_on (CHR ''-'') s ! 0) = Inr y) \<and>
           (\<exists>n. int64_of_str (split_on (CHR ''-'') s ! 1) = Inr n)"
    and "length (split_on (CHR ''-'') s) = 2 \<Longrightarrow>
         int64_of_str (split_on (CHR ''-'') s ! 0) = Inr y \<Longrightarrow>
         int64_of_str (split_on (CHR ''-'') s ! 1) = Inr n \<Longrightarrow>
         label_period freq s = Some [y, n]"
proof -
  show "label_period freq s \<noteq> None \<longleftrightarrow>
           length (split_on (CHR ''-'') s) = 2 \<and>
           (\<exists>y. int64_of_str (split_on (CHR ''-'') s ! 0) = Inr y) \<and>
           (\<exists>n. int64_of_str (split_on (CHR ''-'') s ! 1) = Inr n)"
    using assms by (auto simp: label_period_def split: list.splits sum.splits)
  show "label_period freq s = Some [y, n]"
    if "length (split_on (CHR ''-'') s) = 2"
      "int64_of_str (split_on (CHR ''-'') s ! 0) = Inr y"
      "int64_of_str (split_on (CHR ''-'') s ! 1) = Inr n"
  proof -
    from that(1) obtain a b where ab: "split_on (CHR ''-'') s = [a, b]"
      by (cases "split_on (CHR ''-'') s" rule: list.exhaust[case_product list.exhaust])
         (auto simp: length_Suc_conv)
    with that(2,3) assms show ?thesis by (simp add: label_period_def)
  qed
qed

lemma sort_by_date_Year_ok:
  fixes df :: "'a agg_row_scheme list"
  assumes "\<forall>r \<in> set df. label_period ''Year'' (Date r) \<noteq> None"
  shows "snd (sort_by_date df ''Year'') =
           Inr (drop_columns [''Year'']
                  (sort_key (\<lambda>r. (Measure r, the (label_period ''Year'' (Date r)))) df))"
    and "fst (sort_by_date df ''Year'') =
           map (\<lambda>r. r\<lparr>other := put_cell ''Year''
                  (CInt (projr (int64_of_str (Date r)))) (other r)\<rparr>) df"
proof -
  define Y where "Y = (\<lambda>r :: 'a agg_row_scheme. projr (int64_of_str (Date r)))"
  define U where "U = (\<lambda>r :: 'a agg_row_scheme. r\<lparr>other := put_cell ''Year'' (CInt (Y r)) (other r)\<rparr>)"
  have parse: "int64_of_str (Date r) = Inr (Y r)" if "r \<in> set df" for r
  proof -
    from assms that have "label_period ''Year'' (Date r) \<noteq> None" by blast
    then obtain y where "int64_of_str (Date r) = Inr y"
      unfolding label_period_Year(1) by blast
    then show ?thesis by (simp add: Y_def)
  qed
  then have lab: "the (label_period ''Year'' (Date r)) = [Y r]" if "r \<in> set df" for r
    using that by (simp add: label_period_Year)
  have as: "astype_int (map (CStr \<circ> Date) df) = Inr (map Y df)"
    by (rule astype_int_map) (simp add: parse)
  have df1: "setitem ''Year'' (map (CInt \<circ> Y) df) df = map U df"
    using setitem_map_id[of "''Year''" "CInt \<circ> Y" df] by (simp add: U_def)
  have key: "map (sort_cell (U r)) [''Measure'', ''Year''] = [CStr (Measure r), CInt (Y r)]" for r
    by (simp add: sort_cell_def U_def map_of_put_cell_same)
  have "sort_values [''Measure'', ''Year''] (map U df)
      = map U (sort_key (\<lambda>r. [CStr (Measure r), CInt (Y r)]) df)"
    unfolding sort_values_def sort_key_map key ..
  also have "sort_key (\<lambda>r. [CStr (Measure r), CInt (Y r)]) df
      = sort_key (\<lambda>r. (Measure r, the (label_period ''Year'' (Date r)))) df"
  proof (rule sort_key_equiv)
    fix x y assume xy: "x \<in> set df" "y \<in> set df"
    show "([CStr (Measure x), CInt (Y x)] \<le> [CStr (Measure y), CInt (Y y)])
        = ((Measure x, the (label_period ''Year'' (Date x)))
            \<le> (Measure y, the (label_period ''Year'' (Date y))))"
      unfolding lab[OF xy(1)] lab[OF xy(2)] by (rule key_le_year)
  qed
  finally have sorted: "sort_values [''Measure'', ''Year''] (map U df)
      = map U (sort_key (\<lambda>r. (Measure r, the (label_period ''Year'' (Date r)))) df)" .
  have drop: "drop_columns [''Year''] (map U xs) = drop_columns [''Year''] xs" for xs
  proof (rule drop_columns_map_put)
    fix x :: "'a agg_row_scheme"
    show "filter (\<lambda>kv. fst kv \<notin> set [''Year'']) (other (U x))
        = filter (\<lambda>kv. fst kv \<notin> set [''Year'']) (other x)"
      unfolding U_def using filter_put_cell[of "''Year''" "[''Year'']"] by simp
    show "U x\<lparr>other := other x\<rparr> = x" by (simp add: U_def)
  qed
  show "snd (sort_by_date df ''Year'') =
           Inr (drop_columns [''Year'']
                  (sort_key (\<lambda>r. (Measure r, the (label_period ''Year'' (Date r)))) df))"
    by (simp add: sort_by_date_def as df1 Let_def sorted drop)
  show "fst (sort_by_date df ''Year'') =
           map (\<lambda>r. r\<lparr>other := put_cell ''Year''
                  (CInt (projr (int64_of_str (Date r)))) (other r)\<rparr>) df"
    by (simp add: sort_by_date_def as df1 Let_def) (simp add: U_def Y_def)
qed

lemma sort_by_date_Year_Inr:
  assumes "snd (sort_by_date df ''Year'') = Inr out"
  shows "\<forall>r \<in> set df. label_period ''Year'' (Date r) \<noteq> None"
proof -
  from assms obtain ys where "astype_int (map (CStr \<circ> Date) df) = Inr ys"
    by (auto simp: sort_by_date_def split: sum.splits)
  from astype_int_map_Inr(2)[OF this]
  have "\<exists>y. int64_of_str (Date r) = Inr y" if "r \<in> set df" for r
    using that by fastforce
  then show ?thesis
    unfolding label_period_Year(1) by blast
qed

lemma sort_by_sub_ok:
  fixes df :: "'a agg_row_scheme list"
  assumes sub: "sub \<noteq> ''Year''" "sub \<noteq> ''Measure''"
    and freq: "freq \<noteq> ''Year''"
    and all: "\<forall>r \<in> set df. label_period freq (Date r) \<noteq> None"
    and ne: "df \<noteq> []"
  shows "snd (sort_by_sub sub df) =
           Inr (drop_columns [''Year'', sub]
                  (sort_key (\<lambda>r. (Measure r, the (label_period freq (Date r)))) df))"
proof -
  define A where "A = (\<lambda>r :: 'a agg_row_scheme. split_on (CHR ''-'') (Date r) ! 0)"
  define B where "B = (\<lambda>r :: 'a agg_row_scheme. split_on (CHR ''-'') (Date r) ! 1)"
  define Y where "Y = (\<lambda>r. projr (int64_of_str (A r)))"
  define N where "N = (\<lambda>r. projr (int64_of_str (B r)))"
  define U1 where "U1 = (\<lambda>r :: 'a agg_row_scheme.
    r\<lparr>other := put_cell sub (CStr (B r)) (put_cell ''Year'' (CStr (A r)) (other r))\<rparr>)"
  define U2 where "U2 = (\<lambda>r. (U1 r)\<lparr>other := put_cell ''Year'' (CInt (Y r)) (other (U1 r))\<rparr>)"
  define U3 where "U3 = (\<lambda>r. (U2 r)\<lparr>other := put_cell sub (CInt (N r)) (other (U2 r))\<rparr>)"
  let ?parts = "str_split_expand (CHR ''-'') (map Date df)"
  have row: "length (split_on (CHR ''-'') (Date r)) = 2
      \<and> int64_of_str (A r) = Inr (Y r) \<and> int64_of_str (B r) = Inr (N r)"
    if "r \<in> set df" for r
  proof -
    from all that have "label_period freq (Date r) \<noteq> None" by blast
    then show ?thesis
      unfolding label_period_sub(1)[OF freq] A_def B_def Y_def N_def by auto
  qed
  have lab: "the (label_period freq (Date r)) = [Y r, N r]" if "r \<in> set df" for r
    using row[OF that] label_period_sub(2)[OF freq, of "Date r" "Y r" "N r"]
    by (simp add: A_def B_def)
  have len: "length ?parts = 2"
    by (rule two_columns_iff_all_two) (use ne row in auto)
  have "map (\<lambda>s. if 0 < length (split_on (CHR ''-'') s)
        then CStr (split_on (CHR ''-'') s ! 0) else CNone) (map Date df)
      = map (\<lambda>r. CStr (A r)) df"
    by (simp add: A_def split_on_nonempty)
  then have p0: "?parts ! 0 = map (\<lambda>r. CStr (A r)) df"
    using str_split_expand_nth[of 0 "CHR ''-''" "map Date df"] len by simp
  have "map (\<lambda>s. if 1 < length (split_on (CHR ''-'') s)
        then CStr (split_on (CHR ''-'') s ! 1) else CNone) (map Date df)
      = map (\<lambda>r. CStr (B r)) df"
    using row by (simp add: B_def)
  then have p1: "?parts ! 1 = map (\<lambda>r. CStr (B r)) df"
    using str_split_expand_nth[of 1 "CHR ''-''" "map Date df"] len by simp
  have df1: "setitem sub (map (\<lambda>r. CStr (B r)) df) (setitem ''Year'' (map (\<lambda>r. CStr (A r)) df) df)
      = map U1 df"
    unfolding setitem_map_id setitem_map U1_def by simp
  have g1: "getitem ''Year'' (map U1 df) = map (\<lambda>r. CStr (A r)) df"
    using sub(1) by (simp add: getitem_map U1_def map_of_put_cell_same map_of_put_cell_other)
  have a1: "astype_int (map (\<lambda>r. CStr (A r)) df) = Inr (map Y df)"
    by (rule astype_int_map) (simp add: row)
  have df2: "setitem ''Year'' (map CInt (map Y df)) (map U1 df) = map U2 df"
    unfolding map_map setitem_map U2_def by (simp add: comp_def)
  have g2: "getitem sub (map U2 df) = map (\<lambda>r. CStr (B r)) df"
    using sub(1)
    by (simp add: getitem_map U2_def U1_def map_of_put_cell_same map_of_put_cell_other)
  have a2: "astype_int (map (\<lambda>r. CStr (B r)) df) = Inr (map N df)"
    by (rule astype_int_map) (simp add: row)
  have df3: "setitem sub (map CInt (map N df)) (map U2 df) = map U3 df"
    unfolding map_map setitem_map U3_def by (simp add: comp_def)
  have key: "map (sort_cell (U3 r)) [''Measure'', ''Year'', sub]
      = [CStr (Measure r), CInt (Y r), CInt (N r)]" for r
    using sub
    by (simp add: sort_cell_def U3_def U2_def U1_def map_of_put_cell_same map_of_put_cell_other)
  have "sort_values [''Measure'', ''Year'', sub] (map U3 df)
      = map U3 (sort_key (\<lambda>r. [CStr (Measure r), CInt (Y r), CInt (N r)]) df)"
    unfolding sort_values_def sort_key_map key ..
  also have "sort_key (\<lambda>r. [CStr (Measure r), CInt (Y r), CInt (N r)]) df
      = sort_key (\<lambda>r. (Measure r, the (label_period freq (Date r)))) df"
  proof (rule sort_key_equiv)
    fix x y assume xy: "x \<in> set df" "y \<in> set df"
    show "([CStr (Measure x), CInt (Y x), CInt (N x)] \<le> [CStr (Measure y), CInt (Y y), CInt (N y)])
        = ((Measure x, the (label_period freq (Date x)))
            \<le> (Measure y, the (label_period freq (Date y))))"
      unfolding lab[OF xy(1)] lab[OF xy(2)] by (rule key_le_sub)
  qed
  finally have sorted: "sort_values [''Measure'', ''Year'', sub] (map U3 df)
      = map U3 (sort_key (\<lambda>r. (Measure r, the (label_period freq (Date r)))) df)" .
  have drop: "drop_columns [''Year'', sub] (map U3 xs) = drop_columns [''Year'', sub] xs" for xs
  proof (rule drop_columns_map_put)
    fix x :: "'a agg_row_scheme"
    show "filter (\<lambda>kv. fst kv \<notin> set [''Year'', sub]) (other (U3 x))
        = filter (\<lambda>kv. fst kv \<notin> set [''Year'', sub]) (other x)"
      unfolding U3_def U2_def U1_def
      using filter_put_cell[of "''Year''" "[''Year'', sub]"] filter_put_cell[of sub "[''Year'', sub]"]
      by simp
    show "U3 x\<lparr>other := other x\<rparr> = x" by (simp add: U3_def U2_def U1_def)
  qed
  show ?thesis
    unfolding sort_by_sub_def Let_def p0 p1 df1 g1 a1
    by (simp add: len df2 g2 a2 df3 sorted drop del: map_map)
qed

lemma sort_by_sub_Inr:
  fixes df :: "'a agg_row_scheme list"
  assumes sub: "sub \<noteq> ''Year''" and freq: "freq \<noteq> ''Year''"
    and res: "snd (sort_by_sub sub df) = Inr out"
  shows "df \<noteq> [] \<and> (\<forall>r \<in> set df. label_period freq (Date r) \<noteq> None)"
proof -
  define C0 where "C0 = (\<lambda>r :: 'a agg_row_scheme. CStr (split_on (CHR ''-'') (Date r) ! 0))"
  define C1 where "C1 = (\<lambda>r :: 'a agg_row_scheme.
    if 1 < length (split_on (CHR ''-'') (Date r))
    then CStr (split_on (CHR ''-'') (Date r) ! 1) else CNone)"
  define U1 where "U1 = (\<lambda>r :: 'a agg_row_scheme.
    r\<lparr>other := put_cell sub (C1 r) (put_cell ''Year'' (C0 r) (other r))\<rparr>)"
  let ?parts = "str_split_expand (CHR ''-'') (map Date df)"
  have len: "length ?parts = 2"
    using res by (auto simp: sort_by_sub_def Let_def split: if_splits)
  then have ne: "df \<noteq> []"
    by (auto simp: str_split_expand_ncols)
  have le2: "length (split_on (CHR ''-'') (Date r)) \<le> 2" if "r \<in> set df" for r
  proof -
    have "Date r \<in> set (map Date df)" using that by simp
    from Max_lengths_le[OF _ this, of "CHR ''-''"] ne len show ?thesis
      by (simp add: str_split_expand_ncols)
  qed
  have p0: "?parts ! 0 = map C0 df"
    using str_split_expand_nth[of 0 "CHR ''-''" "map Date df"] len
    by (simp add: C0_def split_on_nonempty comp_def)
  have p1: "?parts ! 1 = map C1 df"
    using str_split_expand_nth[of 1 "CHR ''-''" "map Date df"] len
    by (simp add: C1_def comp_def)
  have df1: "setitem sub (map C1 df) (setitem ''Year'' (map C0 df) df) = map U1 df"
    unfolding setitem_map_id setitem_map U1_def by simp
  have g1: "getitem ''Year'' (map U1 df) = map C0 df"
    using sub by (simp add: getitem_map U1_def map_of_put_cell_same map_of_put_cell_other)
  from res obtain ys where ys: "astype_int (map C0 df) = Inr ys"
    unfolding sort_by_sub_def Let_def p0 p1 df1 g1 using len
    by (auto split: sum.splits)
  have lys: "length ys = length df"
    using astype_int_Inr[OF ys] by (auto dest: list_all2_lengthD)
  have g2: "getitem sub (setitem ''Year'' (map CInt ys) (map U1 df)) = map C1 df"
  proof (rule nth_equalityI)
    show "length (getitem sub (setitem ''Year'' (map CInt ys) (map U1 df))) = length (map C1 df)"
      by (simp add: getitem_def setitem_def lys)
    fix i assume "i < length (getitem sub (setitem ''Year'' (map CInt ys) (map U1 df)))"
    then have i: "i < length df" by (simp add: getitem_def setitem_def lys)
    then show "getitem sub (setitem ''Year'' (map CInt ys) (map U1 df)) ! i = map C1 df ! i"
      using sub
      by (simp add: getitem_def setitem_def lys U1_def map_of_put_cell_same map_of_put_cell_other)
  qed
  from res obtain ns where ns: "astype_int (map C1 df) = Inr ns"
    unfolding sort_by_sub_def Let_def p0 p1 df1 g1 ys using len
    by (auto simp: g2 split: sum.splits)
  have "label_period freq (Date r) \<noteq> None" if "r \<in> set df" for r
  proof -
    from astype_int_map_Inr(2)[OF ys that] obtain y
      where y: "int64_of_str (split_on (CHR ''-'') (Date r) ! 0) = Inr y"
      by (auto simp: C0_def)
    from astype_int_map_Inr(2)[OF ns that] obtain n where n: "astype_int_cell (C1 r) = Inr n"
      by auto
    then have gt: "1 < length (split_on (CHR ''-'') (Date r))"
      by (auto simp: C1_def split: if_splits)
    with n have n': "int64_of_str (split_on (CHR ''-'') (Date r) ! 1) = Inr n"
      by (simp add: C1_def)
    from gt le2[OF that] have "length (split_on (CHR ''-'') (Date r)) = 2" by simp
    with y n' show ?thesis
      unfolding label_period_sub(1)[OF freq] by blast
  qed
  with ne show ?thesis by blast
qed

lemma sort_by_date_ok:
  fixes df :: "'a agg_row_scheme list"
  assumes "\<forall>r \<in> set df. label_period freq (Date r) \<noteq> None"
    and "freq = ''Year'' \<or> df \<noteq> []"
  shows "snd (sort_by_date df freq) =
           Inr (drop_columns (helper_columns freq)
                  (sort_key (\<lambda>r. (Measure r, the (label_period freq (Date r)))) df))"
proof (cases "freq = ''Year''")
  case True
  with assms(1) sort_by_date_Year_ok(1)[of df] show ?thesis
    by (simp add: helper_columns_def)
next
  case False
  with assms(2) have ne: "df \<noteq> []" by simp
  show ?thesis
  proof (cases "freq = ''Quarter''")
    case True
    have "snd (sort_by_sub ''QuarterNum'' df) =
        Inr (drop_columns [''Year'', ''QuarterNum'']
               (sort_key (\<lambda>r. (Measure r, the (label_period freq (Date r)))) df))"
      by (rule sort_by_sub_ok) (use False assms(1) ne in simp_all)
    with True show ?thesis by (simp add: sort_by_date_def helper_columns_def)
  next
    case notq: False
    have "snd (sort_by_sub ''MonthNum'' df) =
        Inr (drop_columns [''Year'', ''MonthNum'']
               (sort_key (\<lambda>r. (Measure r, the (label_period freq (Date r)))) df))"
      by (rule sort_by_sub_ok) (use False assms(1) ne in simp_all)
    with False notq show ?thesis by (simp add: sort_by_date_def helper_columns_def)
  qed
qed

lemma sort_by_date_Inr:
  fixes df :: "'a agg_row_scheme list"
  assumes "snd (sort_by_date df freq) = Inr out"
  shows "(\<forall>r \<in> set df. label_period freq (Date r) \<noteq> None) \<and> (freq = ''Year'' \<or> df \<noteq> [])"
proof (cases "freq = ''Year''")
  case True
  with assms sort_by_date_Year_Inr[of df out] show ?thesis by simp
next
  case False
  show ?thesis
  proof (cases "freq = ''Quarter''")
    case True
    with assms have "snd (sort_by_sub ''QuarterNum'' df) = Inr out"
      by (simp add: sort_by_date_def)
    from sort_by_sub_Inr[OF _ False this] show ?thesis by simp
  next
    case notq: False
    with assms False have "snd (sort_by_sub ''MonthNum'' df) = Inr out"
      by (simp add: sort_by_date_def)
    from sort_by_sub_Inr[OF _ False this] show ?thesis by simp
  qed
qed

section \<open>Labels in the documented formats\<close>

lemma digit_not_special:
  "is_digit c \<Longrightarrow> \<not> is_space c \<and> c \<noteq> CHR ''-'' \<and> c \<noteq> CHR ''+'' \<and> c \<noteq> CHR ''_''"
  by (auto simp: is_digit_def is_space_def)

lemma digit_val_le: "is_digit c \<Longrightarrow> digit_val c \<le> 9"
  by (auto simp: is_digit_def digit_val_def)

lemma split_on_no_sep: "sep \<notin> set s \<Longrightarrow> split_on sep s = [s]"
  by (induction s) auto

lemma split_on_one_sep:
  "sep \<notin> set y \<Longrightarrow> sep \<notin> set n \<Longrightarrow> split_on sep (y @ sep # n) = [y, n]"
  by (induction y) (auto simp: split_on_no_sep)

lemma dec_val_snoc: "dec_val (s @ [c]) = 10 * dec_val s + digit_val c"
  by (simp add: dec_val_def)

lemma dec_val_bound: "list_all is_digit s \<Longrightarrow> dec_val s < 10 ^ length s"
proof (induction s rule: rev_induct)
  case Nil
  then show ?case by (simp add: dec_val_def)
next
  case (snoc c s)
  then have "dec_val s < 10 ^ length s" and "digit_val c \<le> 9"
    by (simp_all add: digit_val_le)
  then show ?case by (simp add: dec_val_snoc)
qed

lemma strip_digits:
  assumes "s \<noteq> []" and "list_all is_digit s"
  shows "strip s = s"
proof -
  from assms obtain c cs where s: "s = c # cs" by (cases s) auto
  with assms(2) have "\<not> is_space c" by (simp add: digit_not_special)
  then have front: "dropWhile is_space s = s" by (simp add: s)
  from assms have "is_digit (last s)"
    by (metis last_in_set list_all_iff)
  then have "\<not> is_space (hd (rev s))"
    using assms(1) by (simp add: hd_rev digit_not_special)
  then have "dropWhile is_space (rev s) = rev s"
    using assms(1) by (cases "rev s") auto
  with front show ?thesis by (simp add: strip_def)
qed

lemma py_int_digits:
  assumes "s \<noteq> []" and "list_all is_digit s"
  shows "py_int s = Some (int (dec_val s))"
proof -
  from assms obtain c cs where s: "s = c # cs" by (cases s) auto
  have nosep: "CHR ''_'' \<notin> set s"
    using assms(2) digit_not_special by (auto simp: list_all_iff)
  have "parse_digits s = Some (dec_val s)"
    using assms by (simp add: parse_digits_def split_on_no_sep[OF nosep])
  moreover have "c \<noteq> CHR ''-''" "c \<noteq> CHR ''+''"
    using assms(2) s digit_not_special by auto
  ultimately show ?thesis
    by (simp add: py_int_def strip_digits[OF assms] s[symmetric]) (simp add: s)
qed

lemma int64_of_str_digits:
  assumes "s \<noteq> []" and "list_all is_digit s" and "length s \<le> 18"
  shows "int64_of_str s = Inr (int (dec_val s))"
proof -
  have "dec_val s < 10 ^ length s" using assms(2) by (rule dec_val_bound)
  also have "(10::nat) ^ length s \<le> 10 ^ 18"
    using assms(3) by (intro power_increasing) simp_all
  finally have "int (dec_val s) < 2 ^ 63" by simp
  then show ?thesis
    by (simp add: int64_of_str_def py_int_digits[OF assms(1,2)])
qed

lemma digits_no_hyphen: "list_all is_digit s \<Longrightarrow> CHR ''-'' \<notin> set s"
  using digit_not_special by (auto simp: list_all_iff)

lemma label_period_hyphen:
  assumes "freq \<noteq> ''Year''"
    and "y \<noteq> []" "list_all is_digit y" "length y \<le> 18"
    and "n \<noteq> []" "list_all is_digit n" "length n \<le> 18"
  shows "label_period freq (y @ CHR ''-'' # n) = Some [int (dec_val y), int (dec_val n)]"
proof -
  have "split_on (CHR ''-'') (y @ CHR ''-'' # n) = [y, n]"
    using assms(3,6) by (intro split_on_one_sep digits_no_hyphen)
  then show ?thesis
    using assms(1) int64_of_str_digits[OF assms(2,3,4)] int64_of_str_digits[OF assms(5,6,7)]
    by (simp add: label_period_def)
qed

lemma well_formed_label_period:
  assumes "well_formed_label freq s"
  shows "label_period freq s = Some (period_of freq s)"
proof (cases "freq = ''Year''")
  case True
  with assms have "s \<noteq> []" "list_all is_digit s" "length s \<le> 18"
    by (auto simp: well_formed_label_def)
  from int64_of_str_digits[OF this] True show ?thesis
    by (simp add: label_period_def period_of_def)
next
  case False
  from assms False have len: "4 < length s" and hy: "s ! 4 = CHR ''-''"
    and y: "list_all is_digit (take 4 s)"
    by (auto simp: well_formed_label_def split: if_splits)
  have n: "list_all is_digit (drop 5 s)" "drop 5 s \<noteq> []" "length (drop 5 s) \<le> 18"
  proof -
    show "list_all is_digit (drop 5 s)"
    proof (cases "freq = ''Quarter''")
      case True
      with assms False have "length s = 6" "s ! 5 \<in> set ''1234''"
        by (auto simp: well_formed_label_def)
      then have "drop 5 s = [s ! 5]" "is_digit (s ! 5)"
        by (auto simp: is_digit_def Cons_nth_drop_Suc[symmetric])
      then show ?thesis by simp
    next
      case notq: False
      with assms False show ?thesis by (auto simp: well_formed_label_def)
    qed
    show "drop 5 s \<noteq> []" "length (drop 5 s) \<le> 18"
      using assms False by (auto simp: well_formed_label_def split: if_splits)
  qed
  have s: "s = take 4 s @ CHR ''-'' # drop 5 s"
    using id_take_nth_drop[OF len] hy by simp
  have "label_period freq (take 4 s @ CHR ''-'' # drop 5 s)
      = Some [int (dec_val (take 4 s)), int (dec_val (drop 5 s))]"
    by (rule label_period_hyphen) (use False y n len in auto)
  with s False show ?thesis by (simp add: period_of_def)
qed

lemma sorted_map_cong:
  "sorted (map f xs) \<Longrightarrow> (\<And>x. x \<in> set xs \<Longrightarrow> g x = f x) \<Longrightarrow> sorted (map g xs)"
  by (metis (mono_tags, lifting) map_eq_conv)

text \<open>
  Sorting a table that has rows. For a table whose \<^verbatim>\<open>Date\<close> column holds labels in the
  documented format of the frequency, and which for the quarterly and monthly
  frequencies has at least one row, \<^verbatim>\<open>sort_by_date\<close> returns the rows of the table
  sorted by category, year and sub-period in ascending order, so that within a category
  the periods never decrease, and the returned rows have none of the helper columns.
\<close>

lemma sort_by_date_sorted:
  fixes df :: "'a agg_row_scheme list"
  assumes wf: "\<forall>r \<in> set df. well_formed_label freq (Date r)"
    and ne: "freq = ''Year'' \<or> df \<noteq> []"
  shows "\<exists>out. snd (sort_by_date df freq) = Inr out \<and>
           mset out = mset (drop_columns (helper_columns freq) df) \<and>
           sorted (map (\<lambda>r. (Measure r, period_of freq (Date r))) out) \<and>
           (\<forall>i j. i < j \<and> j < length out \<and> Measure (out ! i) = Measure (out ! j) \<longrightarrow>
              period_of freq (Date (out ! i)) \<le> period_of freq (Date (out ! j))) \<and>
           (\<forall>r \<in> set out. \<forall>c \<in> set (helper_columns freq). c \<notin> fst ` set (other r))"
proof -
  let ?K = "\<lambda>r :: 'a agg_row_scheme. (Measure r, the (label_period freq (Date r)))"
  let ?P = "\<lambda>r :: 'a agg_row_scheme. (Measure r, period_of freq (Date r))"
  let ?g = "\<lambda>r :: 'a agg_row_scheme.
    r\<lparr>other := filter (\<lambda>kv. fst kv \<notin> set (helper_columns freq)) (other r)\<rparr>"
  let ?out = "drop_columns (helper_columns freq) (sort_key ?K df)"
  have lab: "label_period freq (Date r) = Some (period_of freq (Date r))" if "r \<in> set df" for r
    using wf that by (simp add: well_formed_label_period)
  then have "\<forall>r \<in> set df. label_period freq (Date r) \<noteq> None" by simp
  from sort_by_date_ok[OF this ne]
  have res: "snd (sort_by_date df freq) = Inr ?out" .
  have out: "?out = map ?g (sort_key ?K df)"
    by (simp add: drop_columns_def)
  have perm: "mset ?out = mset (drop_columns (helper_columns freq) df)"
    by (simp add: drop_columns_def)
  have "sorted (map ?K (sort_key ?K df))" by (rule sorted_sort_key)
  then have "sorted (map ?P (sort_key ?K df))"
    by (rule sorted_map_cong) (simp add: lab)
  then have srt: "sorted (map ?P ?out)"
    by (simp add: out comp_def)
  have mono: "period_of freq (Date (?out ! i)) \<le> period_of freq (Date (?out ! j))"
    if "i < j" "j < length ?out" "Measure (?out ! i) = Measure (?out ! j)" for i j
  proof -
    from srt that(1,2) have "map ?P ?out ! i \<le> map ?P ?out ! j"
      by (intro sorted_nth_mono) simp_all
    with that show ?thesis by (simp add: less_eq_prod_def)
  qed
  have absent: "c \<notin> fst ` set (other r)"
    if "r \<in> set ?out" "c \<in> set (helper_columns freq)" for r c
    using that by (auto simp: out)
  from res perm srt mono absent show ?thesis by blast
qed

lemma sort_by_date_sorted_witness:
  "list_all (\<lambda>r. well_formed_label ''Quarter'' (Date r)) three_quarters \<and>
   three_quarters \<noteq> [] \<and>
   (\<exists>out. snd (sort_by_date three_quarters ''Quarter'') = Inr out \<and>
      mset out = mset (drop_columns [''Year'', ''QuarterNum''] three_quarters) \<and>
      sorted (map (\<lambda>r. (Measure r, period_of ''Quarter'' (Date r))) out) \<and>
      (\<forall>r \<in> set out. ''Year'' \<notin> fst ` set (other r) \<and> ''QuarterNum'' \<notin> fst ` set (other r)))"
proof -
  have wf: "\<forall>r \<in> set three_quarters. well_formed_label ''Quarter'' (Date r)"
    by (simp add: three_quarters_def period_row_def well_formed_label_def is_digit_def)
  have ne: "three_quarters \<noteq> []"
    by (simp add: three_quarters_def)
  then have ne': "''Quarter'' = ''Year'' \<or> three_quarters \<noteq> []" by simp
  from sort_by_date_sorted[OF wf ne']
  have "\<exists>out. snd (sort_by_date three_quarters ''Quarter'') = Inr out \<and>
      mset out = mset (drop_columns [''Year'', ''QuarterNum''] three_quarters) \<and>
      sorted (map (\<lambda>r. (Measure r, period_of ''Quarter'' (Date r))) out) \<and>
      (\<forall>r \<in> set out. ''Year'' \<notin> fst ` set (other r) \<and> ''QuarterNum'' \<notin> fst ` set (other r))"
    unfolding helper_columns_def by (elim exE conjE, intro exI conjI) simp_all
  with wf ne show ?thesis by (simp add: list_all_iff)
qed

text \<open>
  Claim C6 says that for every table whose \<^verbatim>\<open>Date\<close> column holds well-formed labels
  of the frequency \<^verbatim>\<open>sort_by_date\<close> returns the rows sorted, without the helper columns.
  The table with no rows is such a table, and the yearly branch returns it as it is. The
  quarterly and monthly branches raise ValueError on it and return nothing: the split of
  an empty column gives a frame with no columns, and the assignment to the two helper
  columns needs two. On every table that has rows the three branches sort, as the
  lemma on sorting a table that has rows shows.
\<close>

theorem sort_by_date_empty_table_raises:
  "list_all (\<lambda>r. well_formed_label ''Quarter'' (Date r)) ([] :: agg_row list) \<and>
   list_all (\<lambda>r. well_formed_label ''Month'' (Date r)) ([] :: agg_row list) \<and>
   snd (sort_by_date ([] :: agg_row list) ''Quarter'') = Inl ValueError \<and>
   snd (sort_by_date ([] :: agg_row list) ''Month'') = Inl ValueError \<and>
   snd (sort_by_date ([] :: agg_row list) ''Year'') = Inr []"
  by code_simp

section \<open>\<^verbatim>\<open>aggregate_dataframe\<close>\<close>

lemma cumcount_desc_nth:
  assumes "j < length df"
  shows "cumcount_desc df ! j = later_in_group df j"
proof -
  have "length (group_of df j) = pos_in_group df j + 1 + later_in_group df j"
    unfolding group_of_split[OF assms] by (simp add: pos_in_group_def later_in_group_def)
  then show ?thesis using assms by (simp add: cumcount_desc_def)
qed

lemma length_cumcount_desc: "length (cumcount_desc df) = length df"
  by (simp add: cumcount_desc_def)

lemma length_filter_Measure:
  "length (filter (\<lambda>r. Measure r = m) (drop k zs))
     = length (filter (\<lambda>k. k = m) (drop k (map Measure zs)))"
  by (simp add: drop_map comp_def)

lemma later_in_group_cong:
  assumes "map Measure ys = map Measure xs" and "j < length xs"
  shows "later_in_group ys j = later_in_group xs j"
proof -
  have len: "length ys = length xs"
    using arg_cong[OF assms(1), of length] by simp
  have mj: "Measure (ys ! j) = Measure (xs ! j)"
    using arg_cong[OF assms(1), of "\<lambda>l. l ! j"] assms(2) len by simp
  show ?thesis
    unfolding later_in_group_def mj length_filter_Measure by (simp only: assms(1))
qed

text \<open>The table \<^verbatim>\<open>aggregate_dataframe\<close> returns, from the sorted one.\<close>

lemma aggregate_dataframe_Inr:
  assumes "aggregate_dataframe df dc freq = Inr out"
  defines "K \<equiv> \<lambda>r :: agg_row. (Measure r, the (label_period freq (Date r)))"
  defines "S \<equiv> drop_columns (helper_columns freq) (sort_key K (groupby_sum dc freq df))"
  shows "length out = length S"
    and "\<forall>r \<in> set (groupby_sum dc freq df). label_period freq (Date r) \<noteq> None"
    and "\<And>j. j < length S \<Longrightarrow>
           out ! j = agg_row.extend (S ! j) (ranked_row.fields (later_in_group S j + 1))"
proof -
  from assms(1) obtain sorted_df
    where srt: "snd (sort_by_date (groupby_sum dc freq df) freq) = Inr sorted_df"
      and out: "out = map2 (\<lambda>r n. agg_row.extend r (ranked_row.fields (n + 1)))
                 sorted_df (cumcount_desc sorted_df)"
    by (auto simp: aggregate_dataframe_def Let_def split: sum.splits)
  from sort_by_date_Inr[OF srt]
  have ok: "\<forall>r \<in> set (groupby_sum dc freq df). label_period freq (Date r) \<noteq> None"
    and ne: "freq = ''Year'' \<or> groupby_sum dc freq df \<noteq> []" by simp_all
  from sort_by_date_ok[OF ok ne] srt have S: "sorted_df = S"
    by (simp add: S_def K_def)
  show "length out = length S"
    by (simp add: out S length_cumcount_desc)
  show "\<forall>r \<in> set (groupby_sum dc freq df). label_period freq (Date r) \<noteq> None"
    by (rule ok)
  show "out ! j = agg_row.extend (S ! j) (ranked_row.fields (later_in_group S j + 1))"
    if "j < length S" for j
    using that by (simp add: out S length_cumcount_desc cumcount_desc_nth)
qed

lemma in_set_drop_nth:
  "x \<in> set (drop n xs) \<longleftrightarrow> (\<exists>k. n \<le> k \<and> k < length xs \<and> xs ! k = x)"
proof
  assume "x \<in> set (drop n xs)"
  then obtain i where "i < length xs - n" "drop n xs ! i = x"
    by (auto simp: in_set_conv_nth)
  then have "n \<le> n + i \<and> n + i < length xs \<and> xs ! (n + i) = x" by auto
  then show "\<exists>k. n \<le> k \<and> k < length xs \<and> xs ! k = x" by blast
next
  assume "\<exists>k. n \<le> k \<and> k < length xs \<and> xs ! k = x"
  then obtain k where k: "n \<le> k" "k < length xs" "xs ! k = x" by blast
  then have "k - n < length (drop n xs)" "drop n xs ! (k - n) = x" by auto
  then show "x \<in> set (drop n xs)" by (metis nth_mem)
qed

lemma later_zero_iff:
  "later_in_group xs i = 0 \<longleftrightarrow>
     (\<forall>k. i < k \<and> k < length xs \<longrightarrow> Measure (xs ! k) \<noteq> Measure (xs ! i))"
proof
  assume "later_in_group xs i = 0"
  then have none: "\<forall>r \<in> set (drop (Suc i) xs). Measure r \<noteq> Measure (xs ! i)"
    by (simp add: later_in_group_def filter_empty_conv)
  show "\<forall>k. i < k \<and> k < length xs \<longrightarrow> Measure (xs ! k) \<noteq> Measure (xs ! i)"
  proof (intro allI impI)
    fix k assume k: "i < k \<and> k < length xs"
    then have "Suc i \<le> k \<and> k < length xs \<and> xs ! k = xs ! k" by simp
    then have "xs ! k \<in> set (drop (Suc i) xs)"
      unfolding in_set_drop_nth by (rule exI)
    with none show "Measure (xs ! k) \<noteq> Measure (xs ! i)" by (rule bspec)
  qed
next
  assume all: "\<forall>k. i < k \<and> k < length xs \<longrightarrow> Measure (xs ! k) \<noteq> Measure (xs ! i)"
  have "Measure r \<noteq> Measure (xs ! i)" if "r \<in> set (drop (Suc i) xs)" for r
  proof -
    from that obtain k where "Suc i \<le> k" "k < length xs" "xs ! k = r"
      unfolding in_set_drop_nth by blast
    with all show ?thesis by auto
  qed
  then show "later_in_group xs i = 0"
    by (simp add: later_in_group_def filter_empty_conv)
qed

lemma last_in_group_unique:
  assumes "j < length xs"
  shows "\<exists>!i. i < length xs \<and> Measure (xs ! i) = Measure (xs ! j) \<and> later_in_group xs i = 0"
proof -
  let ?L = "{i. i < length xs \<and> Measure (xs ! i) = Measure (xs ! j)}"
  have fin: "finite ?L" by simp
  have ne: "?L \<noteq> {}" using assms by auto
  define m where "m = Max ?L"
  have m_in: "m \<in> ?L" unfolding m_def using fin ne by (rule Max_in)
  have m_max: "k \<le> m" if "k \<in> ?L" for k
    unfolding m_def using fin that by (rule Max_ge)
  have m0: "later_in_group xs m = 0"
    unfolding later_zero_iff
  proof (intro allI impI)
    fix k assume k: "m < k \<and> k < length xs"
    show "Measure (xs ! k) \<noteq> Measure (xs ! m)"
    proof
      assume "Measure (xs ! k) = Measure (xs ! m)"
      with k m_in have "k \<in> ?L" by simp
      from m_max[OF this] k show False by simp
    qed
  qed
  show ?thesis
  proof (rule ex1I[of _ m])
    show "m < length xs \<and> Measure (xs ! m) = Measure (xs ! j) \<and> later_in_group xs m = 0"
      using m_in m0 by simp
  next
    fix i assume i: "i < length xs \<and> Measure (xs ! i) = Measure (xs ! j) \<and> later_in_group xs i = 0"
    then have "i \<in> ?L" by simp
    from m_max[OF this] have "i \<le> m" .
    moreover have "\<not> i < m"
    proof
      assume "i < m"
      with i m_in show False unfolding later_zero_iff by auto
    qed
    ultimately show "i = m" by simp
  qed
qed

lemma last_in_group_latest:
  assumes "later_in_group xs i = 0" and "k < length xs" and "Measure (xs ! k) = Measure (xs ! i)"
  shows "k \<le> i"
proof (rule ccontr)
  assume "\<not> k \<le> i"
  then have "i < k \<and> k < length xs" using assms(2) by simp
  with assms(1) have "Measure (xs ! k) \<noteq> Measure (xs ! i)"
    unfolding later_zero_iff by blast
  with assms(3) show False by simp
qed

text \<open>
  Claim C5. In a table \<^verbatim>\<open>aggregate_dataframe\<close> returns, every label was read as a year
  and sub-period, the rows are in ascending order of category and period, and
  \<^verbatim>\<open>RowNumber\<close> of a row is one plus the number of rows of its category after it: the rank
  of the row within its category in descending chronological order, counted from 1.
  So each category has exactly one row with \<^verbatim>\<open>RowNumber\<close> 1, and no row of the category
  has a later period than that row.
\<close>

theorem row_number_rank:
  assumes "aggregate_dataframe df dc freq = Inr out"
  shows "(\<forall>r \<in> set out. label_period freq (Date r) \<noteq> None) \<and>
         sorted (map (\<lambda>r. (Measure r, the (label_period freq (Date r)))) out) \<and>
         (\<forall>j < length out. RowNumber (out ! j) = 1 + later_in_group out j) \<and>
         (\<forall>j < length out. \<exists>!i. i < length out \<and> Measure (out ! i) = Measure (out ! j) \<and>
                                RowNumber (out ! i) = 1) \<and>
         (\<forall>i < length out. \<forall>j < length out.
            Measure (out ! j) = Measure (out ! i) \<and> RowNumber (out ! i) = 1 \<longrightarrow>
            the (label_period freq (Date (out ! j))) \<le> the (label_period freq (Date (out ! i))))"
proof -
  define K where "K = (\<lambda>r :: agg_row. (Measure r, the (label_period freq (Date r))))"
  define K' where "K' = (\<lambda>r :: ranked_row. (Measure r, the (label_period freq (Date r))))"
  define agg where "agg = groupby_sum dc freq df"
  define S where "S = drop_columns (helper_columns freq) (sort_key K agg)"
  note facts = aggregate_dataframe_Inr[OF assms, folded K_def agg_def, folded S_def]
  have len: "length out = length S" by (rule facts(1))
  have nth: "out ! j = agg_row.extend (S ! j) (ranked_row.fields (later_in_group S j + 1))"
    if "j < length S" for j by (rule facts(3)[OF that])
  have md: "Measure (out ! j) = Measure (S ! j)" "Date (out ! j) = Date (S ! j)"
    "RowNumber (out ! j) = later_in_group S j + 1" if "j < length S" for j
    by (simp_all add: nth[OF that] agg_row.defs ranked_row.defs)
  have mm: "map Measure out = map Measure S"
    by (rule nth_equalityI) (simp_all add: len md)
  have later: "later_in_group out j = later_in_group S j" if "j < length S" for j
    using mm that by (rule later_in_group_cong)
  have rn: "RowNumber (out ! j) = 1 + later_in_group out j" if "j < length out" for j
    using that by (simp add: md later len)
  have KS: "map K S = map K (sort_key K agg)"
    by (simp add: S_def drop_columns_def K_def comp_def)
  have Kout: "map K' out = map K S"
    by (rule nth_equalityI) (simp_all add: len md K_def K'_def)
  have srt: "sorted (map K' out)"
    unfolding Kout KS by (rule sorted_sort_key)
  have parse: "label_period freq (Date r) \<noteq> None" if "r \<in> set out" for r
  proof -
    from that obtain j where j: "j < length out" "out ! j = r"
      by (auto simp: in_set_conv_nth)
    then have "Date r = Date (S ! j)" using md(2) len by auto
    moreover have "Date (S ! j) \<in> Date ` set agg"
    proof -
      have "S ! j \<in> set S" using j(1) len by simp
      then show ?thesis by (auto simp: S_def drop_columns_def)
    qed
    ultimately show ?thesis using facts(2) by auto
  qed
  have one: "\<exists>!i. i < length out \<and> Measure (out ! i) = Measure (out ! j) \<and> RowNumber (out ! i) = 1"
    if "j < length out" for j
  proof -
    have "(i < length out \<and> Measure (out ! i) = Measure (out ! j) \<and> RowNumber (out ! i) = 1)
        = (i < length out \<and> Measure (out ! i) = Measure (out ! j) \<and> later_in_group out i = 0)" for i
      using rn[of i] by auto
    with last_in_group_unique[OF that] show ?thesis by simp
  qed
  have latest: "the (label_period freq (Date (out ! j))) \<le> the (label_period freq (Date (out ! i)))"
    if "i < length out" "j < length out" "Measure (out ! j) = Measure (out ! i)"
      "RowNumber (out ! i) = 1" for i j
  proof -
    from that(4) rn[OF that(1)] have "later_in_group out i = 0" by simp
    from last_in_group_latest[OF this that(2,3)] have "j \<le> i" .
    with srt that(1) have "map K' out ! j \<le> map K' out ! i"
      by (intro sorted_nth_mono) simp_all
    with that show ?thesis by (simp add: K'_def less_eq_prod_def)
  qed
  from parse srt rn one latest show ?thesis
    unfolding K'_def by blast
qed

lemma aggregate_zero_denominator_records:
  "aggregate_dataframe zero_denominator_records Month_col ''Month'' = Inr zero_denominator_months"
  by code_simp

theorem row_number_rank_witness:
  "aggregate_dataframe zero_denominator_records Month_col ''Month'' = Inr zero_denominator_months \<and>
   map RowNumber zero_denominator_months = [4, 3, 2, 1] \<and>
   sorted (map (\<lambda>r. (Measure r, the (label_period ''Month'' (Date r)))) zero_denominator_months) \<and>
   RowNumber (zero_denominator_months ! 2) = 1 + later_in_group zero_denominator_months 2 \<and>
   (\<exists>!i. i < length zero_denominator_months \<and>
         Measure (zero_denominator_months ! i) = Measure (zero_denominator_months ! 0) \<and>
         RowNumber (zero_denominator_months ! i) = 1)"
proof -
  have rn: "map RowNumber zero_denominator_months = [4, 3, 2, 1]"
    by (simp add: zero_denominator_months_def month_row_def)
  have len: "0 < length zero_denominator_months" "2 < length zero_denominator_months"
    by (simp_all add: zero_denominator_months_def)
  note rank = row_number_rank[OF aggregate_zero_denominator_records]
  from rank have "sorted (map (\<lambda>r. (Measure r, the (label_period ''Month'' (Date r))))
      zero_denominator_months)" by blast
  moreover from rank len(2)
  have "RowNumber (zero_denominator_months ! 2) = 1 + later_in_group zero_denominator_months 2"
    by blast
  moreover from rank len(1)
  have "\<exists>!i. i < length zero_denominator_months \<and>
         Measure (zero_denominator_months ! i) = Measure (zero_denominator_months ! 0) \<and>
         RowNumber (zero_denominator_months ! i) = 1"
    by blast
  ultimately show ?thesis
    using aggregate_zero_denominator_records rn by blast
qed

text \<open>
  Claim C3 says that every component leaves its input table unchanged. \<^verbatim>\<open>sort_by_date\<close>
  does not: after the call the caller's table has the helper column, here \<^verbatim>\<open>Year\<close>,
  which only the returned table has lost again.
\<close>

theorem sort_by_date_changes_argument:
  "fst (sort_by_date one_year ''Year'')
     = [(period_row ''CAUTI'' ''Year'' ''2024'')\<lparr>other := [(''Year'', CInt 2024)]\<rparr>] \<and>
   fst (sort_by_date one_year ''Year'') \<noteq> one_year \<and>
   snd (sort_by_date one_year ''Year'') = Inr one_year"
  by code_simp

section \<open>Rates\<close>

lemma groupby_sum_row:
  assumes "r \<in> set (groupby_sum dc freq df)"
  shows "Rate r = fmul (int_truediv (Numerator r) (Denominator r)) (Fin (of_int (Multiplier r)))"
    and "frequency r = freq"
  using assms by (auto simp: groupby_sum_def Let_def)

lemma aggregate_dataframe_row:
  assumes "aggregate_dataframe df dc freq = Inr agg" and "j < length agg"
  shows "Rate (agg ! j)
           = fmul (int_truediv (Numerator (agg ! j)) (Denominator (agg ! j)))
               (Fin (of_int (Multiplier (agg ! j))))"
    and "frequency (agg ! j) = freq"
proof -
  define K where "K = (\<lambda>r :: agg_row. (Measure r, the (label_period freq (Date r))))"
  define S where "S = drop_columns (helper_columns freq) (sort_key K (groupby_sum dc freq df))"
  note facts = aggregate_dataframe_Inr[OF assms(1), folded K_def, folded S_def]
  from assms(2) facts(1) have j: "j < length S" by simp
  then have "S ! j \<in> set S" by simp
  then obtain r where r: "r \<in> set (groupby_sum dc freq df)"
    and Sj: "S ! j = r\<lparr>other := filter (\<lambda>kv. fst kv \<notin> set (helper_columns freq)) (other r)\<rparr>"
    by (auto simp: S_def drop_columns_def)
  have row: "agg ! j = agg_row.extend (S ! j) (ranked_row.fields (later_in_group S j + 1))"
    by (rule facts(3)[OF j])
  show "Rate (agg ! j)
           = fmul (int_truediv (Numerator (agg ! j)) (Denominator (agg ! j)))
               (Fin (of_int (Multiplier (agg ! j))))"
    using groupby_sum_row(1)[OF r] by (simp add: row Sj agg_row.defs)
  show "frequency (agg ! j) = freq"
    using groupby_sum_row(2)[OF r] by (simp add: row Sj agg_row.defs)
qed

lemma zero_denominator_rate: "\<not> isfinite (fmul (int_truediv n 0) (Fin m))"
  by (auto simp: int_truediv_def inf_of_sign_def)

section \<open>Windows that hold a given row\<close>

lemma preceding_nth:
  assumes "i < i'" and "i' \<le> i + w" and "i' \<le> length xs" and "w \<le> i'"
  shows "xs ! i \<in> set (preceding w i' xs)"
proof -
  have "i - (i' - w) < length (take w (drop (i' - w) xs))"
    using assms by simp
  moreover have "take w (drop (i' - w) xs) ! (i - (i' - w)) = xs ! i"
    using assms by simp
  ultimately show ?thesis
    unfolding preceding_def by (metis nth_mem)
qed

lemma null_spc_cells:
  fixes w :: nat and sigma :: int
  assumes "j < length df"
    and "Rolling_CL (rolling_spc_agg df w sigma ! j) = NaN"
    and "Rolling_Std (rolling_spc_agg df w sigma ! j) = NaN"
  shows "null_spc (rolling_spc_agg df w sigma ! j)"
  using assms(2,3) rolling_spc_agg_row(4-9)[OF assms(1), of w sigma]
  by (simp add: null_spc_def fsub_def)

lemma finite_spc_cells:
  fixes w :: nat and sigma :: int
  assumes "j < length df"
    and "isfinite (Rolling_CL (rolling_spc_agg df w sigma ! j))"
    and "isfinite (Rolling_Std (rolling_spc_agg df w sigma ! j))"
  shows "finite_spc (rolling_spc_agg df w sigma ! j)"
proof -
  from assms(2,3) obtain c s
    where "Rolling_CL (rolling_spc_agg df w sigma ! j) = Fin c"
      and "Rolling_Std (rolling_spc_agg df w sigma ! j) = Fin s"
    by (metis isfinite.elims(2))
  then show ?thesis
    using rolling_spc_agg_row(4-9)[OF assms(1), of w sigma]
    by (simp add: finite_spc_def fsub_def)
qed

text \<open>
  Claim C7, as amended. A grouped row with \<^verbatim>\<open>Denominator\<close> 0 gets a rate that is not
  finite, and nothing is raised. Every row of its category whose window holds the row,
  the next \<open>w\<close> rows of the category, has all eight SPC cells null. The row's own cells
  come from the \<open>w\<close> rows before it alone: like those of any other row not tagged
  \<^verbatim>\<open>Year\<close>, they are finite when \<open>2 \<le> w\<close>, the row has \<open>w\<close> rows before it and their rates
  are all finite.
\<close>

theorem zero_denominator_propagation:
  fixes w :: nat and sigma :: int
  assumes agg: "aggregate_dataframe df dc freq = Inr agg"
    and j: "j < length agg" and den: "Denominator (agg ! j) = 0"
  defines "out \<equiv> rolling_spc_agg agg w sigma"
  shows "\<not> isfinite (Rate (agg ! j)) \<and>
         (\<forall>j' < length agg.
            Measure (agg ! j') = Measure (agg ! j) \<and>
            pos_in_group agg j < pos_in_group agg j' \<and>
            pos_in_group agg j' \<le> pos_in_group agg j + w \<longrightarrow> null_spc (out ! j')) \<and>
         (\<forall>j' < length agg.
            freq \<noteq> ''Year'' \<and> 2 \<le> w \<and> w \<le> pos_in_group agg j' \<and>
            list_all isfinite (map Rate (preceding w (pos_in_group agg j') (group_of agg j')))
            \<longrightarrow> finite_spc (out ! j'))"
proof -
  have rate: "\<not> isfinite (Rate (agg ! j))"
    using aggregate_dataframe_row(1)[OF agg j] den by (simp add: zero_denominator_rate)
  have null: "null_spc (out ! j')"
    if j': "j' < length agg" and m: "Measure (agg ! j') = Measure (agg ! j)"
      and lo: "pos_in_group agg j < pos_in_group agg j'"
      and hi: "pos_in_group agg j' \<le> pos_in_group agg j + w" for j'
  proof (cases "frequency (agg ! j') = ''Year''")
    case True
    with rolling_spc_agg_row(2-9)[OF j', of w sigma] show ?thesis
      by (simp add: out_def null_spc_def fsub_def)
  next
    case False
    let ?rates = "map Rate (group_of agg j')"
    have same: "group_of agg j' = group_of agg j"
      by (simp add: group_of_def m)
    have "?rates ! pos_in_group agg j = Rate (agg ! j)"
      using group_of_pos(1,2)[OF j] by (simp add: same)
    with rate have bad: "\<not> isfinite (?rates ! pos_in_group agg j)" by simp
    have len: "pos_in_group agg j' \<le> length ?rates"
      using group_of_pos(1)[OF j'] by simp
    have "\<not> (w \<le> pos_in_group agg j' \<and> list_all isfinite (preceding w (pos_in_group agg j') ?rates))"
    proof
      assume a: "w \<le> pos_in_group agg j' \<and> list_all isfinite (preceding w (pos_in_group agg j') ?rates)"
      from preceding_nth[OF lo hi len] a
      have "?rates ! pos_in_group agg j \<in> set (preceding w (pos_in_group agg j') ?rates)" by simp
      with a bad show False by (simp add: list_all_iff)
    qed
    then have "Rolling_CL (out ! j') = NaN" "Rolling_Std (out ! j') = NaN"
      using spc_cells_eval[OF j' False refl refl, of w sigma]
      by (auto simp: out_def)
    then show ?thesis
      unfolding out_def by (rule null_spc_cells[OF j'])
  qed
  have fin: "finite_spc (out ! j')"
    if j': "j' < length agg" and f: "freq \<noteq> ''Year''" and w: "2 \<le> w" "w \<le> pos_in_group agg j'"
      and ok: "list_all isfinite (map Rate (preceding w (pos_in_group agg j') (group_of agg j')))" for j'
  proof -
    have fr: "frequency (agg ! j') \<noteq> ''Year''"
      using aggregate_dataframe_row(2)[OF agg j'] f by simp
    have "isfinite (Rolling_CL (out ! j'))" "isfinite (Rolling_Std (out ! j'))"
      using spc_cells_eval[OF j' fr refl refl, of w sigma] w ok
      by (simp_all add: out_def map_preceding)
    then show ?thesis
      unfolding out_def by (rule finite_spc_cells[OF j'])
  qed
  from rate null fin show ?thesis by blast
qed

lemma zero_denominator_months_window:
  "Measure (zero_denominator_months ! 3) = Measure (zero_denominator_months ! 2)"
  "map Rate (preceding 2 2 zero_denominator_months) = [Fin 1, Fin 2]"
  by (simp_all add: zero_denominator_months_def month_row_def preceding_def int_truediv_def)

theorem zero_denominator_propagation_witness:
  "aggregate_dataframe zero_denominator_records Month_col ''Month'' = Inr zero_denominator_months \<and>
   2 < length zero_denominator_months \<and>
   Denominator (zero_denominator_months ! 2) = 0 \<and>
   \<not> isfinite (Rate (zero_denominator_months ! 2)) \<and>
   null_spc (rolling_spc_agg zero_denominator_months 2 3 ! 3) \<and>
   finite_spc (rolling_spc_agg zero_denominator_months 2 3 ! 2)"
proof -
  note g = zero_denominator_months_group zero_denominator_months_window
  have j: "2 < length zero_denominator_months" and j': "3 < length zero_denominator_months"
    by (simp_all add: g)
  have den: "Denominator (zero_denominator_months ! 2) = 0" by (simp add: g)
  note zd = zero_denominator_propagation[OF aggregate_zero_denominator_records j den, of 2 3]
  have "null_spc (rolling_spc_agg zero_denominator_months 2 3 ! 3)"
  proof -
    have "Measure (zero_denominator_months ! 3) = Measure (zero_denominator_months ! 2) \<and>
        pos_in_group zero_denominator_months 2 < pos_in_group zero_denominator_months 3 \<and>
        pos_in_group zero_denominator_months 3 \<le> pos_in_group zero_denominator_months 2 + 2"
      by (simp add: g)
    with zd j' show ?thesis by blast
  qed
  moreover have "finite_spc (rolling_spc_agg zero_denominator_months 2 3 ! 2)"
  proof -
    have "''Month'' \<noteq> ''Year'' \<and> (2::nat) \<le> 2 \<and> 2 \<le> pos_in_group zero_denominator_months 2 \<and>
        list_all isfinite (map Rate (preceding 2 (pos_in_group zero_denominator_months 2)
          (group_of zero_denominator_months 2)))"
      by (simp add: g)
    with zd j show ?thesis by blast
  qed
  moreover from zd have "\<not> isfinite (Rate (zero_denominator_months ! 2))" by blast
  ultimately show ?thesis
    using aggregate_zero_denominator_records j den by blast
qed

text \<open>
  The claim as first stated fails for the row's own cells: the third month has no
  denominator, its rate is infinite, and its center line and deviation are the finite
  mean and deviation of the two months before it.
\<close>

theorem zero_denominator_own_cells_counterexample:
  "aggregate_dataframe zero_denominator_records Month_col ''Month'' = Inr zero_denominator_months \<and>
   Denominator (zero_denominator_months ! 2) = 0 \<and>
   Rate (zero_denominator_months ! 2) = PInf \<and>
   Rolling_CL (rolling_spc_agg zero_denominator_months 2 3 ! 2) = Fin (3 / 2) \<and>
   Rolling_Std (rolling_spc_agg zero_denominator_months 2 3 ! 2) = Fin (sqrt (1 / 2))"
  using aggregate_zero_denominator_records zero_denominator_months_group(4,5)
    zero_denominator_months_cells(1,2)
  by blast

section \<open>Strings that are not integers\<close>

lemma in_set_dropWhile: "c \<in> set s \<Longrightarrow> \<not> P c \<Longrightarrow> c \<in> set (dropWhile P s)"
  by (induction s) auto

lemma in_set_strip: "c \<in> set s \<Longrightarrow> \<not> is_space c \<Longrightarrow> c \<in> set (strip s)"
  by (simp add: strip_def in_set_dropWhile)

lemma in_split_on: "c \<in> set s \<Longrightarrow> c \<noteq> sep \<Longrightarrow> \<exists>g \<in> set (split_on sep s). c \<in> set g"
proof (induction s)
  case Nil
  then show ?case by simp
next
  case (Cons a s)
  show ?case
  proof (cases "a = sep")
    case True
    with Cons show ?thesis by auto
  next
    case False
    have ne: "split_on sep s \<noteq> []" by (rule split_on_nonempty)
    show ?thesis
    proof (cases "c = a")
      case True
      with False show ?thesis by simp
    next
      case ca: False
      with Cons obtain g where g: "g \<in> set (split_on sep s)" "c \<in> set g" by auto
      from g(1) ne have "g = hd (split_on sep s) \<or> g \<in> set (tl (split_on sep s))"
        by (cases "split_on sep s") auto
      with g(2) False show ?thesis by auto
    qed
  qed
qed

lemma parse_digits_not_digit:
  assumes "c \<in> set s" and "\<not> is_digit c" and "c \<noteq> CHR ''_''"
  shows "parse_digits s = None"
proof -
  from in_split_on[OF assms(1,3)] obtain g
    where "g \<in> set (split_on (CHR ''_'') s)" "c \<in> set g" by blast
  with assms(2) have "\<not> list_all (\<lambda>g. g \<noteq> [] \<and> list_all is_digit g) (split_on (CHR ''_'') s)"
    by (auto simp: list_all_iff)
  then show ?thesis by (simp add: parse_digits_def)
qed

lemma py_int_not_digit:
  assumes "c \<in> set s" and "\<not> is_digit c" and "\<not> is_space c"
    and "c \<noteq> CHR ''_''" and "c \<noteq> CHR ''-''" and "c \<noteq> CHR ''+''"
  shows "py_int s = None"
proof -
  from in_set_strip[OF assms(1,3)] have c: "c \<in> set (strip s)" .
  then obtain a t where t: "strip s = a # t" by (cases "strip s") auto
  have "parse_digits (a # t) = None"
    using c t assms(2,4) by (intro parse_digits_not_digit[of c]) simp_all
  moreover have "parse_digits t = None" if "a = CHR ''-'' \<or> a = CHR ''+''"
    using c t assms(2,4,5,6) that by (intro parse_digits_not_digit[of c]) auto
  ultimately show ?thesis by (auto simp: py_int_def t)
qed

lemma int64_of_str_dot: "CHR ''.'' \<in> set s \<Longrightarrow> int64_of_str s = Inl ValueError"
  using py_int_not_digit[of "CHR ''.''" s]
  by (simp add: int64_of_str_def is_digit_def is_space_def)

lemma int64_of_str_empty: "int64_of_str [] = Inl ValueError"
  by (simp add: int64_of_str_def py_int_def strip_def)

lemma int64_of_str_nan: "int64_of_str ''nan'' = Inl ValueError"
  using py_int_not_digit[of "CHR ''n''" "''nan''"]
  by (simp add: int64_of_str_def is_digit_def is_space_def)

lemma int64_of_str_nan_nan: "int64_of_str ''nan-nan'' = Inl ValueError"
  using py_int_not_digit[of "CHR ''n''" "''nan-nan''"]
  by (simp add: int64_of_str_def is_digit_def is_space_def)

section \<open>Printing integers\<close>

lemma is_digit_digit_char: "d < 10 \<Longrightarrow> is_digit (digit_char d)"
  unfolding is_digit_def digit_char_def by (intro nth_mem) simp

lemma digits_str_of_nat: "list_all is_digit (str_of_nat n)"
proof (induction n rule: str_of_nat.induct)
  case (1 n)
  show ?case
  proof (cases "n < 10")
    case True
    then show ?thesis by (subst str_of_nat.simps) (simp add: is_digit_digit_char)
  next
    case False
    with "1.IH" show ?thesis
      by (subst str_of_nat.simps) (simp add: is_digit_digit_char)
  qed
qed

lemma str_of_nat_nonempty: "str_of_nat n \<noteq> []"
  by (subst str_of_nat.simps) simp

lemma hd_split_on_append:
  "sep \<notin> set a \<Longrightarrow> hd (split_on sep (a @ b)) = a @ hd (split_on sep b)"
  by (induction a) auto

lemma unreadable_float_label: "unreadable_label (str_of_int y @ CHR ''.'' # rest)"
proof -
  have whole: "int64_of_str (str_of_int y @ CHR ''.'' # rest) = Inl ValueError"
    by (rule int64_of_str_dot) simp
  have "int64_of_str (hd (split_on (CHR ''-'') (str_of_int y @ CHR ''.'' # rest))) = Inl ValueError"
  proof (cases "y < 0")
    case True
    then show ?thesis by (simp add: str_of_int_def int64_of_str_empty)
  next
    case False
    have "CHR ''-'' \<notin> set (str_of_nat (nat y))"
      using digits_str_of_nat by (rule digits_no_hyphen)
    then have "hd (split_on (CHR ''-'') (str_of_nat (nat y) @ CHR ''.'' # rest))
        = str_of_nat (nat y) @ hd (split_on (CHR ''-'') (CHR ''.'' # rest))"
      by (rule hd_split_on_append)
    then show ?thesis
      using False by (simp add: str_of_int_def int64_of_str_dot)
  qed
  with whole show ?thesis by (simp add: unreadable_label_def)
qed

lemma unreadable_nan: "unreadable_label ''nan''" "unreadable_label ''nan-nan''"
  by (simp_all add: unreadable_label_def int64_of_str_nan int64_of_str_nan_nan)

lemma unreadable_not_well_formed:
  assumes "unreadable_label s"
  shows "\<not> well_formed_label freq s"
proof
  assume "well_formed_label freq s"
  then have lab: "label_period freq s = Some (period_of freq s)"
    by (rule well_formed_label_period)
  show False
  proof (cases "freq = ''Year''")
    case True
    with lab assms show ?thesis
      by (auto simp: label_period_def unreadable_label_def split: sum.splits)
  next
    case False
    from lab have "label_period freq s \<noteq> None" by simp
    then obtain y where "length (split_on (CHR ''-'') s) = 2"
      "int64_of_str (split_on (CHR ''-'') s ! 0) = Inr y"
      unfolding label_period_sub(1)[OF False] by blast
    moreover have "hd (split_on (CHR ''-'') s) = split_on (CHR ''-'') s ! 0"
      by (rule hd_conv_nth) (rule split_on_nonempty)
    ultimately show ?thesis using assms by (simp add: unreadable_label_def)
  qed
qed

section \<open>The labels \<^verbatim>\<open>AddDateColumns\<close> writes\<close>

lemma length_AddDateColumns: "length (AddDateColumns to_datetime df) = length df"
  by (simp add: AddDateColumns_def Let_def)

lemma length_astype_str_dt: "length (astype_str (dt_field f col)) = length col"
  by (simp add: dt_field_def)

lemma astype_str_dt_nth:
  assumes "i < length col"
  shows "astype_str (dt_field f col) ! i =
     (if list_all (\<lambda>d. d \<noteq> None) col then str_of_int (f (the (col ! i)))
      else (case col ! i of None \<Rightarrow> ''nan'' | Some d \<Rightarrow> str_of_int (f d) @ ''.0''))"
  using assms by (auto simp: dt_field_def split: option.splits)

lemma zfill_long: "2 \<le> length s \<Longrightarrow> zfill 2 s = s"
  by (simp add: zfill_def)

lemma AddDateColumns_nth:
  fixes to_datetime :: "'d \<Rightarrow> timestamp option"
  assumes i: "i < length df"
  defines "dates \<equiv> map (\<lambda>r. to_datetime (Discharge_Month r)) df"
  defines "out \<equiv> AddDateColumns to_datetime df"
  shows "Year (out ! i) = astype_str (dt_field year dates) ! i"
    and "Quarter (out ! i) = astype_str (dt_field year dates) ! i @ ''-''
           @ astype_str (dt_field (\<lambda>d. int (quarter d)) dates) ! i"
    and "Month (out ! i) = astype_str (dt_field year dates) ! i @ ''-''
           @ zfill 2 (astype_str (dt_field (\<lambda>d. int (month d)) dates) ! i)"
    and "Measure (out ! i) = Measure (df ! i)"
  using i unfolding out_def dates_def AddDateColumns_def Let_def
  by (simp_all add: length_astype_str_dt)

lemma labels_all_parsed:
  fixes to_datetime :: "'d \<Rightarrow> timestamp option"
  assumes i: "i < length df"
    and ok: "list_all (\<lambda>d. d \<noteq> None) (map (\<lambda>r. to_datetime (Discharge_Month r)) df)"
  defines "d \<equiv> the (to_datetime (Discharge_Month (df ! i)))"
  defines "out \<equiv> AddDateColumns to_datetime df"
  shows "Year (out ! i) = str_of_int (year d)"
    and "Quarter (out ! i) = str_of_int (year d) @ ''-'' @ str_of_int (int (quarter d))"
    and "Month (out ! i) = str_of_int (year d) @ ''-'' @ zfill 2 (str_of_int (int (month d)))"
  using i ok unfolding out_def d_def
  by (simp_all add: AddDateColumns_nth astype_str_dt_nth)

lemma labels_some_unparsed:
  fixes to_datetime :: "'d \<Rightarrow> timestamp option"
  assumes i: "i < length df"
    and bad: "\<not> list_all (\<lambda>d. d \<noteq> None) (map (\<lambda>r. to_datetime (Discharge_Month r)) df)"
  defines "out \<equiv> AddDateColumns to_datetime df"
  shows "to_datetime (Discharge_Month (df ! i)) = Some d \<Longrightarrow>
           Year (out ! i) = str_of_int (year d) @ ''.0'' \<and>
           Quarter (out ! i) = str_of_int (year d) @ ''.0-'' @ str_of_int (int (quarter d)) @ ''.0'' \<and>
           Month (out ! i) = str_of_int (year d) @ ''.0-'' @ str_of_int (int (month d)) @ ''.0''"
    and "to_datetime (Discharge_Month (df ! i)) = None \<Longrightarrow>
           Year (out ! i) = ''nan'' \<and> Quarter (out ! i) = ''nan-nan'' \<and>
           Month (out ! i) = ''nan-nan''"
proof -
  show "Year (out ! i) = str_of_int (year d) @ ''.0'' \<and>
        Quarter (out ! i) = str_of_int (year d) @ ''.0-'' @ str_of_int (int (quarter d)) @ ''.0'' \<and>
        Month (out ! i) = str_of_int (year d) @ ''.0-'' @ str_of_int (int (month d)) @ ''.0''"
    if "to_datetime (Discharge_Month (df ! i)) = Some d"
  proof -
    have "zfill 2 (str_of_int (int (month d)) @ ''.0'') = str_of_int (int (month d)) @ ''.0''"
      by (rule zfill_long) simp
    then show ?thesis
      using i bad that unfolding out_def
      by (simp add: AddDateColumns_nth astype_str_dt_nth)
  qed
  show "Year (out ! i) = ''nan'' \<and> Quarter (out ! i) = ''nan-nan'' \<and> Month (out ! i) = ''nan-nan''"
    if "to_datetime (Discharge_Month (df ! i)) = None"
    using i bad that unfolding out_def
    by (simp add: AddDateColumns_nth astype_str_dt_nth zfill_def)
qed

lemma labels_unreadable:
  fixes to_datetime :: "'d \<Rightarrow> timestamp option"
  assumes i: "i < length df"
    and bad: "\<not> list_all (\<lambda>d. d \<noteq> None) (map (\<lambda>r. to_datetime (Discharge_Month r)) df)"
  shows "unreadable_label (period_label dc (AddDateColumns to_datetime df ! i))"
proof (cases "to_datetime (Discharge_Month (df ! i))")
  case None
  from labels_some_unparsed(2)[OF i bad None] show ?thesis
    by (cases dc) (simp_all add: unreadable_nan)
next
  case (Some d)
  from labels_some_unparsed(1)[OF i bad Some]
    unreadable_float_label[of "year d" "''0''"]
    unreadable_float_label[of "year d" "''0-'' @ str_of_int (int (quarter d)) @ ''.0''"]
    unreadable_float_label[of "year d" "''0-'' @ str_of_int (int (month d)) @ ''.0''"]
  show ?thesis
    by (cases dc) simp_all
qed

section \<open>Labels the sorter cannot read\<close>

lemma groupby_sum_Dates:
  "Date ` set (groupby_sum dc freq df) = period_label dc ` set df"
proof -
  have "Date ` set (groupby_sum dc freq df)
      = (\<lambda>k. snd (snd (snd k))) ` set (sort (remdups (map (group_key dc) df)))"
    unfolding groupby_sum_def set_map image_image
    by (rule image_cong) (auto simp: Let_def split: prod.splits)
  also have "\<dots> = period_label dc ` set df"
    by (simp add: image_image group_key_def)
  finally show ?thesis .
qed

lemma groupby_sum_nonempty: "df \<noteq> [] \<Longrightarrow> groupby_sum dc freq df \<noteq> []"
proof -
  assume "df \<noteq> []"
  then have "period_label dc ` set df \<noteq> {}" by simp
  with groupby_sum_Dates[of dc freq df]
  have "Date ` set (groupby_sum dc freq df) \<noteq> {}" by metis
  then show ?thesis by auto
qed

lemma sort_by_sub_unreadable:
  fixes df :: "'a agg_row_scheme list"
  assumes sub: "sub \<noteq> ''Year''"
    and ne: "df \<noteq> []"
    and bad: "\<forall>r \<in> set df. unreadable_label (Date r)"
  shows "snd (sort_by_sub sub df) = Inl ValueError"
proof (cases "length (str_split_expand (CHR ''-'') (map Date df)) = 2")
  case False
  then show ?thesis by (simp add: sort_by_sub_def Let_def)
next
  case len: True
  define C0 where "C0 = (\<lambda>r :: 'a agg_row_scheme. CStr (split_on (CHR ''-'') (Date r) ! 0))"
  let ?parts = "str_split_expand (CHR ''-'') (map Date df)"
  have p0: "?parts ! 0 = map C0 df"
    using str_split_expand_nth[of 0 "CHR ''-''" "map Date df"] len
    by (simp add: C0_def split_on_nonempty comp_def)
  have g1: "getitem ''Year'' (setitem sub (?parts ! 1) (setitem ''Year'' (map C0 df) df)) = map C0 df"
  proof (rule nth_equalityI)
    have l1: "length (?parts ! 1) = length df"
      using str_split_expand_nth[of 1 "CHR ''-''" "map Date df"] len by simp
    show "length (getitem ''Year'' (setitem sub (?parts ! 1) (setitem ''Year'' (map C0 df) df)))
        = length (map C0 df)"
      using l1 by (simp add: getitem_def setitem_def)
    fix i assume "i < length (getitem ''Year'' (setitem sub (?parts ! 1) (setitem ''Year'' (map C0 df) df)))"
    then have "i < length df" using l1 by (simp add: getitem_def setitem_def)
    then show "getitem ''Year'' (setitem sub (?parts ! 1) (setitem ''Year'' (map C0 df) df)) ! i
        = map C0 df ! i"
      using sub l1
      by (simp add: getitem_def setitem_def map_of_put_cell_same map_of_put_cell_other)
  qed
  from ne obtain r rs where df: "df = r # rs" by (cases df) auto
  with bad have "unreadable_label (Date r)" by simp
  moreover have "hd (split_on (CHR ''-'') (Date r)) = split_on (CHR ''-'') (Date r) ! 0"
    by (rule hd_conv_nth) (rule split_on_nonempty)
  ultimately have "astype_int_cell (C0 r) = Inl ValueError"
    by (simp add: C0_def unreadable_label_def)
  then have "astype_int (map C0 df) = Inl ValueError"
    by (simp add: df)
  then show ?thesis
    unfolding sort_by_sub_def Let_def p0 g1 using len by simp
qed

lemma sort_by_date_unreadable:
  fixes df :: "'a agg_row_scheme list"
  assumes ne: "df \<noteq> []" and bad: "\<forall>r \<in> set df. unreadable_label (Date r)"
  shows "snd (sort_by_date df freq) = Inl ValueError"
proof (cases "freq = ''Year''")
  case True
  from ne obtain r rs where df: "df = r # rs" by (cases df) auto
  with bad have "astype_int_cell (CStr (Date r)) = Inl ValueError"
    by (simp add: unreadable_label_def)
  then have "astype_int (map (CStr \<circ> Date) df) = Inl ValueError"
    by (simp add: df)
  with True show ?thesis by (simp add: sort_by_date_def)
next
  case False
  with sort_by_sub_unreadable[OF _ ne bad, of "''QuarterNum''"]
    sort_by_sub_unreadable[OF _ ne bad, of "''MonthNum''"]
  show ?thesis by (simp add: sort_by_date_def)
qed

lemma aggregate_dataframe_unreadable:
  assumes ne: "df \<noteq> []" and bad: "\<forall>r \<in> set df. unreadable_label (period_label dc r)"
  shows "aggregate_dataframe df dc freq = Inl ValueError"
proof -
  have "\<forall>r \<in> set (groupby_sum dc freq df). unreadable_label (Date r)"
  proof
    fix r assume "r \<in> set (groupby_sum dc freq df)"
    then have "Date r \<in> Date ` set (groupby_sum dc freq df)" by (rule imageI)
    then have "Date r \<in> period_label dc ` set df"
      by (simp only: groupby_sum_Dates)
    with bad show "unreadable_label (Date r)" by auto
  qed
  from sort_by_date_unreadable[OF groupby_sum_nonempty[OF ne] this]
  show ?thesis by (simp add: aggregate_dataframe_def)
qed

lemma aggregate_after_unparsed_date:
  fixes to_datetime :: "'d \<Rightarrow> timestamp option"
  assumes bad: "\<not> list_all (\<lambda>d. d \<noteq> None) (map (\<lambda>r. to_datetime (Discharge_Month r)) df)"
  shows "aggregate_dataframe (AddDateColumns to_datetime df) dc freq = Inl ValueError"
proof (rule aggregate_dataframe_unreadable)
  from bad have "df \<noteq> []" by auto
  then show "AddDateColumns to_datetime df \<noteq> []"
    using length_AddDateColumns[of to_datetime df] by auto
  show "\<forall>r \<in> set (AddDateColumns to_datetime df). unreadable_label (period_label dc r)"
  proof
    fix r assume "r \<in> set (AddDateColumns to_datetime df)"
    then obtain i where "i < length df" "AddDateColumns to_datetime df ! i = r"
      by (auto simp: in_set_conv_nth length_AddDateColumns)
    with labels_unreadable[OF this(1) bad, of dc] show "unreadable_label (period_label dc r)"
      by simp
  qed
qed

section \<open>Labels in the documented formats, from valid timestamps\<close>

lemma str_of_nat_lt10: "n < 10 \<Longrightarrow> str_of_nat n = [digit_char n]"
  by (subst str_of_nat.simps) simp

lemma str_of_nat_ge10:
  "10 \<le> n \<Longrightarrow> str_of_nat n = str_of_nat (n div 10) @ [digit_char (n mod 10)]"
  by (subst str_of_nat.simps) simp

lemma length_str_of_nat_4:
  assumes "1000 \<le> n" and "n < 10000"
  shows "length (str_of_nat n) = 4"
proof -
  have "str_of_nat n = str_of_nat (n div 10) @ [digit_char (n mod 10)]"
    using assms by (intro str_of_nat_ge10) simp
  moreover have "str_of_nat (n div 10) = str_of_nat (n div 10 div 10) @ [digit_char (n div 10 mod 10)]"
    using assms by (intro str_of_nat_ge10) simp
  moreover have "str_of_nat (n div 10 div 10)
      = str_of_nat (n div 10 div 10 div 10) @ [digit_char (n div 10 div 10 mod 10)]"
    using assms by (intro str_of_nat_ge10) simp
  moreover have "str_of_nat (n div 10 div 10 div 10) = [digit_char (n div 10 div 10 div 10)]"
    using assms by (intro str_of_nat_lt10) simp
  ultimately show ?thesis by simp
qed

lemma small_cases:
  "(q::nat) \<le> 12 \<Longrightarrow>
     q = 0 \<or> q = 1 \<or> q = 2 \<or> q = 3 \<or> q = 4 \<or> q = 5 \<or> q = 6 \<or> q = 7 \<or> q = 8 \<or> q = 9
     \<or> q = 10 \<or> q = 11 \<or> q = 12"
  by arith

lemma quarter_str:
  assumes "1 \<le> q" and "q \<le> 4"
  shows "\<exists>c. str_of_int (int q) = [c] \<and> c \<in> set ''1234''"
proof -
  from assms have "q = 1 \<or> q = 2 \<or> q = 3 \<or> q = 4" by arith
  then show ?thesis
    by (elim disjE) (simp_all add: str_of_int_def str_of_nat_lt10 digit_char_def)
qed

lemma month_str:
  assumes "1 \<le> m" and "m \<le> 12"
  shows "length (zfill 2 (str_of_int (int m))) = 2 \<and>
         list_all is_digit (zfill 2 (str_of_int (int m))) \<and>
         dec_val (zfill 2 (str_of_int (int m))) = m"
proof -
  from small_cases[OF assms(2)] assms(1)
  have "m = 1 \<or> m = 2 \<or> m = 3 \<or> m = 4 \<or> m = 5 \<or> m = 6 \<or> m = 7 \<or> m = 8 \<or> m = 9
     \<or> m = 10 \<or> m = 11 \<or> m = 12" by auto
  then show ?thesis
    by (elim disjE)
       (simp_all add: str_of_int_def str_of_nat.simps digit_char_def zfill_def is_digit_def
         dec_val_def digit_val_def)
qed

lemma well_formed_from_timestamp:
  assumes "valid_timestamp d"
  shows "well_formed_label ''Year'' (str_of_int (year d))"
    and "well_formed_label ''Quarter'' (str_of_int (year d) @ ''-'' @ str_of_int (int (quarter d)))"
    and "well_formed_label ''Month''
           (str_of_int (year d) @ ''-'' @ zfill 2 (str_of_int (int (month d))))"
proof -
  define ys where "ys = str_of_int (year d)"
  from assms have y: "1000 \<le> nat (year d)" "nat (year d) < 10000" "0 \<le> year d"
    and m: "1 \<le> month d" "month d \<le> 12"
    unfolding valid_timestamp_def by linarith+
  have ys: "length ys = 4" "list_all is_digit ys"
    using y by (simp_all add: ys_def str_of_int_def length_str_of_nat_4 digits_str_of_nat)
  show "well_formed_label ''Year'' (str_of_int (year d))"
    using ys by (simp add: well_formed_label_def ys_def)
  have "1 \<le> quarter d" "quarter d \<le> 4"
    using m by (simp_all add: quarter_def)
  from quarter_str[OF this] obtain c where c: "str_of_int (int (quarter d)) = [c]" "c \<in> set ''1234''"
    by blast
  show "well_formed_label ''Quarter'' (str_of_int (year d) @ ''-'' @ str_of_int (int (quarter d)))"
    unfolding c(1) ys_def[symmetric] using ys c(2)
    by (simp add: well_formed_label_def nth_append)
  from month_str[OF m]
  show "well_formed_label ''Month''
           (str_of_int (year d) @ ''-'' @ zfill 2 (str_of_int (int (month d))))"
    unfolding ys_def[symmetric] using ys m
    by (simp add: well_formed_label_def nth_append)
qed

text \<open>
  Claim C10. Row \<open>i\<close> of the table gets its three labels from the parsed dates of the
  whole column. When every date parses, the labels are the year, the year and the
  quarter, and the year and the zero-padded month, and for a valid timestamp they are in
  the documented formats. When at least one date does not parse, a row whose own date
  parses gets float-formatted labels such as \<^verbatim>\<open>2024.0\<close> and \<^verbatim>\<open>2024.0-3.0\<close>, a row whose
  date does not parse gets \<^verbatim>\<open>nan\<close> and \<^verbatim>\<open>nan-nan\<close>; none of these labels is in a
  documented format, and \<^verbatim>\<open>aggregate_dataframe\<close> on the table raises ValueError in
  \<^verbatim>\<open>sort_by_date\<close> for every period column and frequency.
\<close>

theorem period_labels_by_dtype:
  fixes to_datetime :: "'d \<Rightarrow> timestamp option" and df :: "'d src_row list"
  assumes i: "i < length df"
  defines "out \<equiv> AddDateColumns to_datetime df"
  defines "parsed \<equiv> map (\<lambda>r. to_datetime (Discharge_Month r)) df"
  shows "(list_all (\<lambda>d. d \<noteq> None) parsed \<longrightarrow>
           (\<exists>d. parsed ! i = Some d \<and>
              Year (out ! i) = str_of_int (year d) \<and>
              Quarter (out ! i) = str_of_int (year d) @ ''-'' @ str_of_int (int (quarter d)) \<and>
              Month (out ! i) = str_of_int (year d) @ ''-'' @ zfill 2 (str_of_int (int (month d))) \<and>
              (valid_timestamp d \<longrightarrow>
                 well_formed_label ''Year'' (Year (out ! i)) \<and>
                 well_formed_label ''Quarter'' (Quarter (out ! i)) \<and>
                 well_formed_label ''Month'' (Month (out ! i))))) \<and>
         (\<not> list_all (\<lambda>d. d \<noteq> None) parsed \<longrightarrow>
            (case parsed ! i of
               Some d \<Rightarrow>
                 Year (out ! i) = str_of_int (year d) @ ''.0'' \<and>
                 Quarter (out ! i)
                   = str_of_int (year d) @ ''.0-'' @ str_of_int (int (quarter d)) @ ''.0'' \<and>
                 Month (out ! i)
                   = str_of_int (year d) @ ''.0-'' @ str_of_int (int (month d)) @ ''.0''
             | None \<Rightarrow>
                 Year (out ! i) = ''nan'' \<and> Quarter (out ! i) = ''nan-nan'' \<and>
                 Month (out ! i) = ''nan-nan'') \<and>
            (\<forall>dc freq. \<not> well_formed_label freq (period_label dc (out ! i))) \<and>
            (\<forall>dc freq. aggregate_dataframe out dc freq = Inl ValueError))"
proof (intro conjI impI)
  assume ok: "list_all (\<lambda>d. d \<noteq> None) parsed"
  then have "parsed ! i \<noteq> None"
    using i by (simp add: parsed_def list_all_iff)
  then obtain d where d: "parsed ! i = Some d" by blast
  then have the_d: "the (to_datetime (Discharge_Month (df ! i))) = d"
    using i by (simp add: parsed_def)
  note lab = labels_all_parsed[OF i ok[unfolded parsed_def], unfolded the_d, folded out_def]
  have "well_formed_label ''Year'' (Year (out ! i)) \<and>
      well_formed_label ''Quarter'' (Quarter (out ! i)) \<and>
      well_formed_label ''Month'' (Month (out ! i))" if "valid_timestamp d"
    unfolding lab using well_formed_from_timestamp[OF that] by simp
  with d lab show "\<exists>d. parsed ! i = Some d \<and>
      Year (out ! i) = str_of_int (year d) \<and>
      Quarter (out ! i) = str_of_int (year d) @ ''-'' @ str_of_int (int (quarter d)) \<and>
      Month (out ! i) = str_of_int (year d) @ ''-'' @ zfill 2 (str_of_int (int (month d))) \<and>
      (valid_timestamp d \<longrightarrow>
         well_formed_label ''Year'' (Year (out ! i)) \<and>
         well_formed_label ''Quarter'' (Quarter (out ! i)) \<and>
         well_formed_label ''Month'' (Month (out ! i)))"
    by blast
next
  assume bad: "\<not> list_all (\<lambda>d. d \<noteq> None) parsed"
  note bad' = bad[unfolded parsed_def]
  show "case parsed ! i of
          Some d \<Rightarrow>
            Year (out ! i) = str_of_int (year d) @ ''.0'' \<and>
            Quarter (out ! i)
              = str_of_int (year d) @ ''.0-'' @ str_of_int (int (quarter d)) @ ''.0'' \<and>
            Month (out ! i)
              = str_of_int (year d) @ ''.0-'' @ str_of_int (int (month d)) @ ''.0''
        | None \<Rightarrow>
            Year (out ! i) = ''nan'' \<and> Quarter (out ! i) = ''nan-nan'' \<and>
            Month (out ! i) = ''nan-nan''"
  proof (cases "to_datetime (Discharge_Month (df ! i))")
    case None
    with labels_some_unparsed(2)[OF i bad' None] i show ?thesis
      by (simp add: parsed_def out_def)
  next
    case (Some d)
    with labels_some_unparsed(1)[OF i bad' Some] i show ?thesis
      by (simp add: parsed_def out_def)
  qed
  show "\<forall>dc freq. \<not> well_formed_label freq (period_label dc (out ! i))"
    unfolding out_def
    using unreadable_not_well_formed[OF labels_unreadable[OF i bad']] by blast
  show "\<forall>dc freq. aggregate_dataframe out dc freq = Inl ValueError"
    unfolding out_def using aggregate_after_unparsed_date[OF bad'] by blast
qed

lemma mixed_dates_parsed:
  "map (\<lambda>r. example_to_datetime (Discharge_Month r)) mixed_dates
     = [None, Some \<lparr>year = 2024, month = 3, day = 15\<rparr>]"
  by (simp add: mixed_dates_def cauti_record_def example_to_datetime_def)

lemma str_of_int_examples:
  "str_of_int 2024 = ''2024''" "str_of_int 1 = ''1''" "str_of_int 3 = ''3''"
  by (simp_all add: str_of_int_def str_of_nat.simps digit_char_def)

theorem period_labels_by_dtype_witness:
  "1 < length mixed_dates \<and>
   Year (AddDateColumns example_to_datetime mixed_dates ! 1) = ''2024.0'' \<and>
   Quarter (AddDateColumns example_to_datetime mixed_dates ! 1) = ''2024.0-1.0'' \<and>
   Month (AddDateColumns example_to_datetime mixed_dates ! 1) = ''2024.0-3.0'' \<and>
   aggregate_dataframe (AddDateColumns example_to_datetime mixed_dates) Month_col ''Month''
     = Inl ValueError"
proof -
  have i: "1 < length mixed_dates" by (simp add: mixed_dates_def)
  have q: "quarter \<lparr>year = 2024, month = 3, day = 15\<rparr> = 1" by (simp add: quarter_def)
  from period_labels_by_dtype[OF i, of example_to_datetime] i
  show ?thesis
    unfolding mixed_dates_parsed by (simp add: q str_of_int_examples)
qed

text \<open>
  Claim C2 says that a date that does not parse is absorbed: its row is aggregated into
  a bucket of its own and the run goes on. \<^verbatim>\<open>AddDateColumns\<close> does absorb it, but the
  labels it then writes stop \<^verbatim>\<open>sort_by_date\<close>: with one bad date among the records every
  aggregation raises ValueError, and so does the driver.
\<close>

theorem unparsed_date_aborts_run:
  "map Year (AddDateColumns example_to_datetime mixed_dates) = [''nan'', ''2024.0''] \<and>
   aggregate_dataframe (AddDateColumns example_to_datetime mixed_dates) Year_col ''Year''
     = Inl ValueError \<and>
   aggregate_dataframe (AddDateColumns example_to_datetime mixed_dates) Quarter_col ''Quarter''
     = Inl ValueError \<and>
   aggregate_dataframe (AddDateColumns example_to_datetime mixed_dates) Month_col ''Month''
     = Inl ValueError \<and>
   Finalset (AddDateColumns example_to_datetime mixed_dates) = Inl ValueError"
proof -
  have bad: "\<not> list_all (\<lambda>d. d \<noteq> None)
      (map (\<lambda>r. example_to_datetime (Discharge_Month r)) mixed_dates)"
    unfolding mixed_dates_parsed by simp
  note fails = aggregate_after_unparsed_date[OF bad]
  have "map Year (AddDateColumns example_to_datetime mixed_dates) = [''nan'', ''2024.0'']"
    by (simp add: AddDateColumns_def Let_def mixed_dates_parsed dt_field_def
        str_of_int_examples)
       (simp add: mixed_dates_def)
  moreover have "Finalset (AddDateColumns example_to_datetime mixed_dates) = Inl ValueError"
    by (simp add: Finalset_def spc_tables_def fails)
  ultimately show ?thesis using fails by simp
qed

section \<open>The driver\<close>

lemma quarter_name_digits:
  "list_all is_digit y \<Longrightarrow> quarter_name (y @ rest) = y @ quarter_name rest"
proof (induction y)
  case Nil
  then show ?case by simp
next
  case (Cons c y)
  then have "c \<noteq> CHR ''-''" using digit_not_special by auto
  with Cons show ?case by simp
qed

lemma quarter_name_label:
  assumes "list_all is_digit y" and "n \<noteq> []" and "list_all is_digit n"
  shows "quarter_name (y @ ''-'' @ n) = y @ ''-Q'' @ n"
proof -
  have tw: "takeWhile is_digit n = n" and dw: "dropWhile is_digit n = []"
    using assms(3) by (simp_all add: list_all_iff)
  have "quarter_name (CHR ''-'' # n) = CHR ''-'' # CHR ''Q'' # n"
    by (simp add: tw dw assms(2))
  then show ?thesis
    using quarter_name_digits[OF assms(1), of "CHR ''-'' # n"] by simp
qed

lemma rolling_spc_agg_frequency:
  fixes w :: nat and sigma :: int
  assumes "j < length df"
  shows "frequency (rolling_spc_agg df w sigma ! j) = frequency (df ! j)"
    and "Date (rolling_spc_agg df w sigma ! j) = Date (df ! j)"
proof -
  have "frequency (ranked_row.truncate r) = frequency r"
    "Date (ranked_row.truncate r) = Date r" for r :: spc_row
    by (simp_all add: ranked_row.defs)
  with rolling_spc_agg_row(1)[OF assms, of w sigma]
  show "frequency (rolling_spc_agg df w sigma ! j) = frequency (df ! j)"
    and "Date (rolling_spc_agg df w sigma ! j) = Date (df ! j)"
    by metis+
qed

lemma rolling_spc_agg_tagged:
  fixes w :: nat and sigma :: int
  assumes "aggregate_dataframe df dc freq = Inr agg"
  shows "list_all (\<lambda>r. frequency r = freq) (rolling_spc_agg agg w sigma)"
proof -
  have "frequency (rolling_spc_agg agg w sigma ! j) = freq" if "j < length agg" for j
    using rolling_spc_agg_frequency(1)[OF that, of w sigma]
      aggregate_dataframe_row(2)[OF assms that] by simp
  then show ?thesis
    by (auto simp: list_all_iff in_set_conv_nth length_rolling_spc_agg)
qed

lemma adjust_quarter_name_all:
  "list_all (\<lambda>r. frequency r = ''Quarter'') df \<Longrightarrow>
     adjust_quarter_name df = map (\<lambda>r. r\<lparr>Date := quarter_name (Date r)\<rparr>) df"
  by (simp add: adjust_quarter_name_def list_all_iff)

text \<open>
  Claim C9. When the three tables with their SPC columns exist, the final table is the
  monthly table, then the quarterly table with each \<^verbatim>\<open>Date\<close> rewritten, then the yearly
  table. The rows tagged \<^verbatim>\<open>Quarter\<close> are exactly those of the quarterly table, so the
  rows tagged \<^verbatim>\<open>Month\<close> or \<^verbatim>\<open>Year\<close> and every column other than \<^verbatim>\<open>Date\<close> are as the
  SPC computation left them. The rewriting turns a label of digits, a hyphen and digits
  into the same label with \<^verbatim>\<open>Q\<close> after the hyphen.
\<close>

theorem quarter_labels_adjusted:
  assumes "spc_tables df = Inr (agg_month_spc, agg_quarter_spc, agg_year_spc)"
  shows "Finalset df =
           Inr (agg_month_spc
                @ map (\<lambda>r. r\<lparr>Date := quarter_name (Date r)\<rparr>) agg_quarter_spc
                @ agg_year_spc) \<and>
         list_all (\<lambda>r. frequency r = ''Month'') agg_month_spc \<and>
         list_all (\<lambda>r. frequency r = ''Quarter'') agg_quarter_spc \<and>
         list_all (\<lambda>r. frequency r = ''Year'') agg_year_spc \<and>
         (\<forall>y n. list_all is_digit y \<and> n \<noteq> [] \<and> list_all is_digit n \<longrightarrow>
            quarter_name (y @ ''-'' @ n) = y @ ''-Q'' @ n)"
proof -
  from assms obtain agg_year agg_quarter agg_month
    where y: "aggregate_dataframe df Year_col ''Year'' = Inr agg_year"
      and q: "aggregate_dataframe df Quarter_col ''Quarter'' = Inr agg_quarter"
      and m: "aggregate_dataframe df Month_col ''Month'' = Inr agg_month"
      and tabs: "agg_month_spc = rolling_spc_agg agg_month 24 3"
        "agg_quarter_spc = rolling_spc_agg agg_quarter 8 3"
        "agg_year_spc = rolling_spc_agg agg_year 2 3"
    by (auto simp: spc_tables_def split: sum.splits)
  have tm: "list_all (\<lambda>r. frequency r = ''Month'') agg_month_spc"
    unfolding tabs by (rule rolling_spc_agg_tagged[OF m])
  have tq: "list_all (\<lambda>r. frequency r = ''Quarter'') agg_quarter_spc"
    unfolding tabs by (rule rolling_spc_agg_tagged[OF q])
  have ty: "list_all (\<lambda>r. frequency r = ''Year'') agg_year_spc"
    unfolding tabs by (rule rolling_spc_agg_tagged[OF y])
  have "Finalset df =
      Inr (agg_month_spc
           @ map (\<lambda>r. r\<lparr>Date := quarter_name (Date r)\<rparr>) agg_quarter_spc
           @ agg_year_spc)"
    by (simp add: Finalset_def assms adjust_quarter_name_all[OF tq])
  with tm tq ty quarter_name_label show ?thesis by blast
qed

lemma aggregate_zero_denominator_quarters:
  "aggregate_dataframe zero_denominator_records Quarter_col ''Quarter''
     = Inr zero_denominator_quarters"
  by code_simp

lemma aggregate_zero_denominator_year:
  "aggregate_dataframe zero_denominator_records Year_col ''Year'' = Inr zero_denominator_year"
  by code_simp

theorem quarter_labels_adjusted_witness:
  "spc_tables zero_denominator_records =
     Inr (rolling_spc_agg zero_denominator_months 24 3,
          rolling_spc_agg zero_denominator_quarters 8 3,
          rolling_spc_agg zero_denominator_year 2 3) \<and>
   Finalset zero_denominator_records =
     Inr (rolling_spc_agg zero_denominator_months 24 3
          @ map (\<lambda>r. r\<lparr>Date := quarter_name (Date r)\<rparr>)
              (rolling_spc_agg zero_denominator_quarters 8 3)
          @ rolling_spc_agg zero_denominator_year 2 3) \<and>
   Date (rolling_spc_agg zero_denominator_quarters 8 3 ! 0) = ''2024-1'' \<and>
   quarter_name ''2024-1'' = ''2024-Q1''"
proof -
  have tabs: "spc_tables zero_denominator_records =
     Inr (rolling_spc_agg zero_denominator_months 24 3,
          rolling_spc_agg zero_denominator_quarters 8 3,
          rolling_spc_agg zero_denominator_year 2 3)"
    by (simp add: spc_tables_def aggregate_zero_denominator_records
        aggregate_zero_denominator_quarters aggregate_zero_denominator_year)
  have d: "Date (rolling_spc_agg zero_denominator_quarters 8 3 ! 0) = ''2024-1''"
    using rolling_spc_agg_frequency(2)[of 0 zero_denominator_quarters 8 3]
    by (simp add: zero_denominator_quarters_def)
  have "list_all is_digit ''2024'' \<and> ''1'' \<noteq> [] \<and> list_all is_digit ''1''"
    by (simp add: is_digit_def)
  with quarter_labels_adjusted[OF tabs] have "quarter_name (''2024'' @ ''-'' @ ''1'') = ''2024'' @ ''-Q'' @ ''1''"
    by blast
  with quarter_labels_adjusted[OF tabs] tabs d show ?thesis by simp
qed

end
